theory Spec2Isabelle
  imports Main "HOL-Library.Code_Target_Nat"
begin

section \<open>JavaScript strings\<close>

text \<open>
  A JavaScript string is a sequence of UTF-16 code units. A code unit is modelled as a
  natural number (below 65536 in every string the program can receive), a string as the
  list of its code units. \<open>str\<close> turns an ASCII literal into such a list.
\<close>

type_synonym jsstring = "nat list"

definition str :: "string \<Rightarrow> jsstring" where
  "str s = map of_char s"

text \<open>\<^verbatim>\<open>s.startsWith(p)\<close>, \<^verbatim>\<open>s.endsWith(p)\<close>, \<^verbatim>\<open>s.includes(p)\<close> and
  \<^verbatim>\<open>s.indexOf(p)\<close> (\<open>None\<close> for -1).\<close>

definition startsWith :: "jsstring \<Rightarrow> jsstring \<Rightarrow> bool" where
  "startsWith s p \<longleftrightarrow> take (length p) s = p"

definition endsWith :: "jsstring \<Rightarrow> jsstring \<Rightarrow> bool" where
  "endsWith s p \<longleftrightarrow> drop (length s - length p) s = p"

fun includes_str :: "jsstring \<Rightarrow> jsstring \<Rightarrow> bool" where
  "includes_str [] p = (p = [])"
| "includes_str (c # s) p = (startsWith (c # s) p \<or> includes_str s p)"

fun indexOf :: "jsstring \<Rightarrow> jsstring \<Rightarrow> nat option" where
  "indexOf [] p = (if p = [] then Some 0 else None)"
| "indexOf (c # s) p =
     (if startsWith (c # s) p then Some 0 else map_option Suc (indexOf s p))"

text \<open>\<^verbatim>\<open>s.slice(0, -1)\<close> drops the last code unit, \<^verbatim>\<open>s.slice(1)\<close> the first,
  \<^verbatim>\<open>s.slice(1, -1)\<close> both (the empty string when \<open>s\<close> has fewer than two).\<close>

definition slice_0_m1 :: "jsstring \<Rightarrow> jsstring" where
  "slice_0_m1 s = butlast s"

definition slice_1 :: "jsstring \<Rightarrow> jsstring" where
  "slice_1 s = tl s"

definition slice_1_m1 :: "jsstring \<Rightarrow> jsstring" where
  "slice_1_m1 s = butlast (tl s)"

text \<open>\<^verbatim>\<open>String.prototype.trim\<close> removes the WhiteSpace and LineTerminator code units of
  ECMAScript from both ends: TAB, LF, VT, FF, CR, SPACE, NBSP, U+1680, U+2000 to U+200A,
  U+2028, U+2029, U+202F, U+205F, U+3000 and U+FEFF.\<close>

definition isWhiteSpace :: "nat \<Rightarrow> bool" where
  "isWhiteSpace c \<longleftrightarrow>
     c \<in> {9, 10, 11, 12, 13, 32, 160, 5760, 8232, 8233, 8239, 8287, 12288, 65279}
     \<or> (8192 \<le> c \<and> c \<le> 8202)"

definition trim :: "jsstring \<Rightarrow> jsstring" where
  "trim s = rev (dropWhile isWhiteSpace (rev (dropWhile isWhiteSpace s)))"

section \<open>Appending the SAS token\<close>

text \<open>
  \<^verbatim>\<open>appendSasToken(url, sasToken)\<close> of \<^verbatim>\<open>url-decoder.js\<close>. The body sits in a
  \<^verbatim>\<open>try\<close> whose operations (\<^verbatim>\<open>startsWith\<close>, \<^verbatim>\<open>slice\<close>, \<^verbatim>\<open>includes\<close>, \<^verbatim>\<open>+\<close>)
  do not throw on strings, so on strings the \<^verbatim>\<open>catch\<close> branch is never taken. The calls
  of the optional logger are diagnostics and are left out throughout.
\<close>

definition appendSasToken :: "jsstring \<Rightarrow> jsstring \<Rightarrow> jsstring" where
  "appendSasToken url sasToken =
     (if sasToken = [] then url
      else
        let token = (if startsWith sasToken (str ''?'') then slice_1 sasToken else sasToken);
            sep = (if includes_str url (str ''?'') then str ''&'' else str ''?'')
        in url @ sep @ token)"

section \<open>Exceptions\<close>

text \<open>An exception carries its message (the texts are the ones of V8).\<close>

datatype exn =
  TypeError jsstring | URIError jsstring | InvalidCharacterError jsstring | ReferenceError jsstring

fun message :: "exn \<Rightarrow> jsstring" where
  "message (TypeError m) = m"
| "message (URIError m) = m"
| "message (InvalidCharacterError m) = m"
| "message (ReferenceError m) = m"

section \<open>atob\<close>

definition isB64Char :: "nat \<Rightarrow> bool" where
  "isB64Char c \<longleftrightarrow>
     (65 \<le> c \<and> c \<le> 90) \<or> (97 \<le> c \<and> c \<le> 122) \<or> (48 \<le> c \<and> c \<le> 57) \<or> c = 43 \<or> c = 47"

text \<open>The position of a code unit in the Base64 alphabet \<^verbatim>\<open>A-Z a-z 0-9 + /\<close>.\<close>

definition b64val :: "nat \<Rightarrow> nat" where
  "b64val c =
     (if 65 \<le> c \<and> c \<le> 90 then c - 65
      else if 97 \<le> c \<and> c \<le> 122 then c - 71
      else if 48 \<le> c \<and> c \<le> 57 then c + 4
      else if c = 43 then 62 else 63)"

text \<open>Four sextets give three bytes; a final group of two sextets gives one byte and a
  final group of three gives two, the bits left over being dropped.\<close>

fun sextets_bytes :: "nat list \<Rightarrow> nat list" where
  "sextets_bytes (a # b # c # d # r) =
     (a * 4 + b div 16) # ((b mod 16) * 16 + c div 4) # ((c mod 4) * 64 + d) # sextets_bytes r"
| "sextets_bytes [a, b, c] = [a * 4 + b div 16, (b mod 16) * 16 + c div 4]"
| "sextets_bytes [a, b] = [a * 4 + b div 16]"
| "sextets_bytes r = []"

definition isAsciiWhitespace :: "nat \<Rightarrow> bool" where
  "isAsciiWhitespace c \<longleftrightarrow> c \<in> {9, 10, 12, 13, 32}"

text \<open>Removes one or two \<^verbatim>\<open>=\<close> from the end, when the data ends with them.\<close>

definition dropPadding :: "jsstring \<Rightarrow> jsstring" where
  "dropPadding d =
     (if endsWith d (str ''=='') then butlast (butlast d)
      else if endsWith d (str ''='') then butlast d
      else d)"

text \<open>
  \<^verbatim>\<open>atob\<close> is the forgiving-base64 decode of the HTML standard: ASCII whitespace is
  removed; when the length is a multiple of four, one or two trailing \<^verbatim>\<open>=\<close> are removed;
  a length of 1 modulo 4 or a code unit outside the alphabet is an
  \<^verbatim>\<open>InvalidCharacterError\<close>; otherwise the sextets are decoded to a string of bytes.
\<close>

definition atobError :: exn where
  "atobError = InvalidCharacterError (str ''The string to be decoded is not correctly encoded.'')"

definition atob :: "jsstring \<Rightarrow> exn + jsstring" where
  "atob data =
     (let d1 = filter (\<lambda>c. \<not> isAsciiWhitespace c) data;
          d2 = (if length d1 mod 4 = 0 then dropPadding d1 else d1)
      in if length d2 mod 4 = 1 then Inl atobError
         else if \<not> list_all isB64Char d2 then Inl atobError
         else Inr (sextets_bytes (map b64val d2)))"

section \<open>escape and decodeURIComponent\<close>

definition isAlnum :: "nat \<Rightarrow> bool" where
  "isAlnum c \<longleftrightarrow> (65 \<le> c \<and> c \<le> 90) \<or> (97 \<le> c \<and> c \<le> 122) \<or> (48 \<le> c \<and> c \<le> 57)"

definition hexUpper :: "nat \<Rightarrow> nat" where
  "hexUpper d = (if d < 10 then 48 + d else 55 + d)"

definition hexLower :: "nat \<Rightarrow> nat" where
  "hexLower d = (if d < 10 then 48 + d else 87 + d)"

text \<open>
  \<^verbatim>\<open>escape\<close> (ECMAScript, Annex B) keeps the code units of
  \<^verbatim>\<open>A-Z a-z 0-9 @ * _ + - . /\<close>, writes any other code unit below 256 as \<^verbatim>\<open>%XX\<close>
  and any code unit from 256 on as \<^verbatim>\<open>%uXXXX\<close>, with upper-case hexadecimal digits.
\<close>

definition escapeUnit :: "nat \<Rightarrow> jsstring" where
  "escapeUnit c =
     (if isAlnum c \<or> c \<in> set (str ''@*_+-./'') then [c]
      else if c < 256 then [37, hexUpper (c div 16), hexUpper (c mod 16)]
      else [37, 117, hexUpper (c div 4096 mod 16), hexUpper (c div 256 mod 16),
            hexUpper (c div 16 mod 16), hexUpper (c mod 16)])"

definition escape :: "jsstring \<Rightarrow> jsstring" where
  "escape s = concat (map escapeUnit s)"

definition hexDigitVal :: "nat \<Rightarrow> nat option" where
  "hexDigitVal c =
     (if 48 \<le> c \<and> c \<le> 57 then Some (c - 48)
      else if 65 \<le> c \<and> c \<le> 70 then Some (c - 55)
      else if 97 \<le> c \<and> c \<le> 102 then Some (c - 87)
      else None)"

definition parseHexOctet :: "nat \<Rightarrow> nat \<Rightarrow> nat option" where
  "parseHexOctet h1 h2 =
     (case hexDigitVal h1 of None \<Rightarrow> None
      | Some a \<Rightarrow> (case hexDigitVal h2 of None \<Rightarrow> None | Some b \<Rightarrow> Some (16 * a + b)))"

text \<open>The number of leading 1 bits of an octet.\<close>

definition leadingOnes :: "nat \<Rightarrow> nat" where
  "leadingOnes B =
     (if B < 128 then 0 else if B < 192 then 1 else if B < 224 then 2
      else if B < 240 then 3 else if B < 248 then 4 else 5)"

text \<open>Reads \<open>j\<close> further escapes \<^verbatim>\<open>%XX\<close>: their octets and the rest of the string.\<close>

fun continuation :: "nat \<Rightarrow> jsstring \<Rightarrow> (nat list \<times> jsstring) option" where
  "continuation j s =
     (if j = 0 then Some ([], s)
      else case s of
        p # h1 # h2 # s1 \<Rightarrow>
          (if p \<noteq> 37 then None
           else case parseHexOctet h1 h2 of None \<Rightarrow> None
             | Some b \<Rightarrow> (case continuation (j - 1) s1 of None \<Rightarrow> None
                 | Some (os, r) \<Rightarrow> Some (b # os, r)))
      | _ \<Rightarrow> None)"

declare continuation.simps [simp del]

definition isCont :: "nat \<Rightarrow> bool" where
  "isCont b \<longleftrightarrow> 128 \<le> b \<and> b < 192"

text \<open>The code point of a well-formed UTF-8 sequence of two to four octets: continuation
  octets in \<^verbatim>\<open>80..BF\<close>, no overlong form, no surrogate, nothing above U+10FFFF.\<close>

fun utf8CodePoint :: "nat list \<Rightarrow> nat option" where
  "utf8CodePoint [b0, b1] =
     (let v = (b0 - 192) * 64 + (b1 - 128)
      in if isCont b1 \<and> 128 \<le> v then Some v else None)"
| "utf8CodePoint [b0, b1, b2] =
     (let v = (b0 - 224) * 4096 + (b1 - 128) * 64 + (b2 - 128)
      in if isCont b1 \<and> isCont b2 \<and> 2048 \<le> v \<and> \<not> (55296 \<le> v \<and> v \<le> 57343)
         then Some v else None)"
| "utf8CodePoint [b0, b1, b2, b3] =
     (let v = (b0 - 240) * 262144 + (b1 - 128) * 4096 + (b2 - 128) * 64 + (b3 - 128)
      in if isCont b1 \<and> isCont b2 \<and> isCont b3 \<and> 65536 \<le> v \<and> v \<le> 1114111
         then Some v else None)"
| "utf8CodePoint os = None"

definition utf16Encode :: "nat \<Rightarrow> jsstring" where
  "utf16Encode v =
     (if v \<le> 65535 then [v]
      else [55296 + (v - 65536) div 1024, 56320 + (v - 65536) mod 1024])"

definition uriError :: exn where
  "uriError = URIError (str ''URI malformed'')"

lemma continuation_length:
  "continuation j s = Some (os, r) \<Longrightarrow> length r \<le> length s"
proof (induction j arbitrary: s os r)
  case 0
  then show ?case by (simp add: continuation.simps)
next
  case (Suc j)
  from Suc.prems obtain p h1 h2 s1 b os' where s: "s = p # h1 # h2 # s1"
    and c: "continuation j s1 = Some (os', r)"
    by (subst (asm) continuation.simps) (auto split: list.splits if_splits option.splits)
  from Suc.IH [OF c] s show ?case by simp
qed

text \<open>
  One escape sequence, read after its \<^verbatim>\<open>%\<close>: \<^verbatim>\<open>XX\<close> with an octet below 128 gives that
  code unit; an octet with two to four leading 1 bits starts a UTF-8 sequence whose
  further octets must follow as escapes and give one code point, in UTF-16. The result is
  the decoded code units and the rest of the string, or \<open>None\<close> where Decode throws.
\<close>

definition decodeEscape :: "jsstring \<Rightarrow> (jsstring \<times> jsstring) option" where
  "decodeEscape s =
     (case s of
        h1 # h2 # s1 \<Rightarrow>
          (case parseHexOctet h1 h2 of
             None \<Rightarrow> None
           | Some B \<Rightarrow>
               if leadingOnes B = 0 then Some ([B], s1)
               else if leadingOnes B = 1 \<or> leadingOnes B > 4 then None
               else (case continuation (leadingOnes B - 1) s1 of
                       None \<Rightarrow> None
                     | Some (os, s2) \<Rightarrow>
                         (case utf8CodePoint (B # os) of
                            None \<Rightarrow> None
                          | Some v \<Rightarrow> Some (utf16Encode v, s2))))
      | _ \<Rightarrow> None)"

lemma decodeEscape_length:
  "decodeEscape s = Some (u, r) \<Longrightarrow> length r \<le> length s"
  unfolding decodeEscape_def
  by (auto split: list.splits option.splits if_splits dest!: continuation_length)

text \<open>
  \<^verbatim>\<open>decodeURIComponent\<close> (ECMAScript, Decode with an empty set of preserved escapes): a
  code unit other than \<^verbatim>\<open>%\<close> is copied, an escape sequence is decoded, and a malformed
  one is a \<^verbatim>\<open>URIError\<close>.
\<close>

function decodeURIComponent :: "jsstring \<Rightarrow> exn + jsstring" where
  "decodeURIComponent [] = Inr []"
| "decodeURIComponent (c # s) =
     (if c \<noteq> 37 then map_sum id ((#) c) (decodeURIComponent s)
      else case decodeEscape s of
             None \<Rightarrow> Inl uriError
           | Some (u, r) \<Rightarrow> map_sum id ((@) u) (decodeURIComponent r))"
  by pat_completeness auto
termination
  by (relation "measure length") (auto dest: decodeEscape_length)

section \<open>The tolerant Base64 decoder\<close>

definition isB64OrPad :: "nat \<Rightarrow> bool" where
  "isB64OrPad c \<longleftrightarrow> isB64Char c \<or> c = 61"

text \<open>\<^verbatim>\<open>input.replace(/[^A-Za-z0-9+/=]+$/, '')\<close>: the run of code units outside the
  alphabet (and other than \<^verbatim>\<open>=\<close>) at the end of the string is removed.\<close>

definition stripTrailingNonB64 :: "jsstring \<Rightarrow> jsstring" where
  "stripTrailingNonB64 s = rev (dropWhile (\<lambda>c. \<not> isB64OrPad c) (rev s))"

text \<open>\<^verbatim>\<open>cleanInput + '='.repeat((4 - cleanInput.length % 4) % 4)\<close>\<close>

definition pad4 :: "jsstring \<Rightarrow> jsstring" where
  "pad4 s = s @ replicate ((4 - length s mod 4) mod 4) 61"

text \<open>\<^verbatim>\<open>padded.replace(/-/g, '+').replace(/_/g, '/')\<close>\<close>

definition urlSafeToStandard :: "jsstring \<Rightarrow> jsstring" where
  "urlSafeToStandard s = map (\<lambda>c. if c = 45 then 43 else if c = 95 then 47 else c) s"

text \<open>\<^verbatim>\<open>c.toString(16)\<close> on a code unit, and
  \<^verbatim>\<open>'%' + ('00' + c.charCodeAt(0).toString(16)).slice(-2)\<close>.\<close>

fun toString16 :: "nat \<Rightarrow> jsstring" where
  "toString16 n = (if n < 16 then [hexLower n] else toString16 (n div 16) @ [hexLower (n mod 16)])"

definition slice_m2 :: "jsstring \<Rightarrow> jsstring" where
  "slice_m2 s = drop (length s - 2) s"

definition percentHex :: "nat \<Rightarrow> jsstring" where
  "percentHex c = 37 # slice_m2 (str ''00'' @ toString16 c)"

text \<open>The second attempt of \<^verbatim>\<open>customBase64Decode\<close>: \<^verbatim>\<open>atob\<close> on the input with the
  URL-safe characters replaced, every byte written as \<^verbatim>\<open>%xx\<close>, then
  \<^verbatim>\<open>decodeURIComponent\<close>.\<close>

definition urlSafeDecode :: "jsstring \<Rightarrow> exn + jsstring" where
  "urlSafeDecode padded =
     (case atob (urlSafeToStandard padded) of
        Inl e \<Rightarrow> Inl e
      | Inr bytes \<Rightarrow> decodeURIComponent (concat (map percentHex bytes)))"

lemma stripTrailingNonB64_length: "length (stripTrailingNonB64 s) \<le> length s"
  unfolding stripTrailingNonB64_def by (simp add: length_dropWhile_le le_trans [OF length_dropWhile_le])

text \<open>
  \<^verbatim>\<open>customBase64Decode(input)\<close> of \<^verbatim>\<open>url-decoder.js\<close>. The two nested \<^verbatim>\<open>try\<close>
  blocks become case distinctions on the results of \<^verbatim>\<open>atob\<close> and of the second attempt;
  in the recursive call \<open>input\<close> is the shortened string, and it is this \<open>input\<close> that
  the last line returns.
\<close>

function customBase64Decode :: "jsstring \<Rightarrow> exn + jsstring" where
  "customBase64Decode input =
     (if input = [] then Inr []
      else
        let cleanInput = stripTrailingNonB64 input;
            padded = pad4 cleanInput
        in case atob padded of
             Inr decoded \<Rightarrow> Inr decoded
           | Inl e \<Rightarrow>
               (case urlSafeDecode padded of
                  Inr decoded \<Rightarrow> Inr decoded
                | Inl e2 \<Rightarrow>
                    if length cleanInput > 1
                    then customBase64Decode (slice_0_m1 cleanInput)
                    else Inr input))"
  by pat_completeness auto
termination
proof (relation "measure length", goal_cases)
  case 1
  show ?case by simp
next
  case (2 input cleanInput padded e e2)
  have "length (stripTrailingNonB64 input) \<le> length input"
    by (rule stripTrailingNonB64_length)
  with 2 show ?case by (simp add: slice_0_m1_def)
qed

declare customBase64Decode.simps [simp del]

section \<open>Values and results\<close>

text \<open>
  The values a caller can pass for the encoded reference: \<^verbatim>\<open>null\<close>, \<^verbatim>\<open>undefined\<close>, a
  boolean or a string. \<open>truthy\<close> is JavaScript's ToBoolean, \<open>toString\<close> its ToString.
\<close>

datatype jsval = JNull | JUndefined | JBool bool | JStr jsstring

fun truthy :: "jsval \<Rightarrow> bool" where
  "truthy JNull = False"
| "truthy JUndefined = False"
| "truthy (JBool b) = b"
| "truthy (JStr s) = (s \<noteq> [])"

fun toString :: "jsval \<Rightarrow> jsstring" where
  "toString JNull = str ''null''"
| "toString JUndefined = str ''undefined''"
| "toString (JBool b) = (if b then str ''true'' else str ''false'')"
| "toString (JStr s) = s"

text \<open>Calling \<^verbatim>\<open>b64.trim()\<close> on a value that is not a string: booleans have no such
  method.\<close>

definition trimNotAFunction :: exn where
  "trimNotAFunction = TypeError (str ''b64.trim is not a function'')"

fun callTrim :: "jsval \<Rightarrow> exn + jsstring" where
  "callTrim (JStr s) = Inr (trim s)"
| "callTrim v = Inl trimNotAFunction"

record decoded_url =
  raw :: "jsstring option"
  cleaned :: "jsstring option"

section \<open>The regular expression of decodeAndCleanUrl\<close>

text \<open>
  \<^verbatim>\<open>/https?:\/\/.*?\.(pdf|txt|csv)(?:.*)?/i\<close>. Under the flag \<^verbatim>\<open>i\<close> (without
  \<^verbatim>\<open>u\<close>) a letter of the pattern matches itself in either case and no code unit from 128
  on; \<^verbatim>\<open>.\<close> matches every code unit but the line terminators LF, CR, U+2028, U+2029.
\<close>

definition ciChar :: "nat \<Rightarrow> nat \<Rightarrow> bool" where
  "ciChar p c \<longleftrightarrow> c = p \<or> (97 \<le> p \<and> p \<le> 122 \<and> c + 32 = p)"

fun ciStartsWith :: "jsstring \<Rightarrow> jsstring \<Rightarrow> bool" where
  "ciStartsWith s [] = True"
| "ciStartsWith [] (p # ps) = False"
| "ciStartsWith (c # s) (p # ps) = (ciChar p c \<and> ciStartsWith s ps)"

definition isLineTerminator :: "nat \<Rightarrow> bool" where
  "isLineTerminator c \<longleftrightarrow> c \<in> {10, 13, 8232, 8233}"

text \<open>\<^verbatim>\<open>https?:\/\/\<close> at the start of \<open>s\<close>: the length of what it matches.\<close>

definition schemeLength :: "jsstring \<Rightarrow> nat option" where
  "schemeLength s =
     (if ciStartsWith s (str ''https://'') then Some 8
      else if ciStartsWith s (str ''http://'') then Some 7
      else None)"

text \<open>\<^verbatim>\<open>\.(pdf|txt|csv)\<close> at the start of \<open>s\<close>.\<close>

definition extHere :: "jsstring \<Rightarrow> bool" where
  "extHere s \<longleftrightarrow>
     ciStartsWith s (str ''.pdf'') \<or> ciStartsWith s (str ''.txt'') \<or> ciStartsWith s (str ''.csv'')"

text \<open>\<^verbatim>\<open>(?:.*)?\<close> at the end of the pattern is greedy: it takes the rest of the line.\<close>

definition restOfLine :: "jsstring \<Rightarrow> jsstring" where
  "restOfLine s = takeWhile (\<lambda>c. \<not> isLineTerminator c) s"

text \<open>\<^verbatim>\<open>.*?\.(pdf|txt|csv)(?:.*)?\<close> at the start of \<open>s\<close>: the lazy \<^verbatim>\<open>.*?\<close> stops at
  the first extension, and gives up at a line terminator.\<close>

fun lazyToExt :: "jsstring \<Rightarrow> jsstring option" where
  "lazyToExt [] = None"
| "lazyToExt (c # s) =
     (if extHere (c # s) then Some (take 4 (c # s) @ restOfLine (drop 4 (c # s)))
      else if isLineTerminator c then None
      else map_option ((#) c) (lazyToExt s))"

definition matchAt :: "jsstring \<Rightarrow> jsstring option" where
  "matchAt s =
     (case schemeLength s of
        None \<Rightarrow> None
      | Some n \<Rightarrow> map_option ((@) (take n s)) (lazyToExt (drop n s)))"

text \<open>\<^verbatim>\<open>decoded.match(...)\<close>: the match at the first position that has one
  (\<^verbatim>\<open>m[0]\<close>), or \<open>None\<close> for \<^verbatim>\<open>null\<close>.\<close>

fun matchUrl :: "jsstring \<Rightarrow> jsstring option" where
  "matchUrl [] = None"
| "matchUrl (c # s) = (case matchAt (c # s) of Some m \<Rightarrow> Some m | None \<Rightarrow> matchUrl s)"

text \<open>
  \<^verbatim>\<open>toLowerCase\<close>: the letters \<^verbatim>\<open>A-Z\<close> become \<^verbatim>\<open>a-z\<close>, U+0130 becomes the two
  code units U+0069 U+0307 and the Kelvin sign U+212A becomes \<^verbatim>\<open>k\<close>. The other
  upper-case letters, all outside ASCII, become lower-case letters outside ASCII, one
  code unit for one; the table is not part of the program and they are left as they are,
  which changes neither the length of the result nor where ASCII text occurs in it.
\<close>

definition lowerUnit :: "nat \<Rightarrow> jsstring" where
  "lowerUnit c =
     (if 65 \<le> c \<and> c \<le> 90 then [c + 32]
      else if c = 304 then [105, 775]
      else if c = 8490 then [107]
      else [c])"

definition toLowerCase :: "jsstring \<Rightarrow> jsstring" where
  "toLowerCase s = concat (map lowerUnit s)"

section \<open>decodeAndCleanUrl\<close>

definition knownBadBase64 :: jsstring where
  "knownBadBase64 =
     str ''aHR0cHM6Ly9jYXBvenpvbDAyc3RvcmFnZS5ibG9iLmNvcmUud2luZG93cy5uZXQvYmlnb2xw''
       @ str ''b3RvZmRhdGVyL2ZpZWxkcG9ydGFsL2ZwMS9HYXMlMjBDaHJvbWF0b2dyYXBoeSUyMChQTCUy''
       @ str ''MEFaKS9Qcm9jZWR1cmUvR0MlMjBUcm91Ymxlc2hvb3RpbmclMjBHdWlkZSUyMC0lMjBGSUQu''
       @ str ''cGRm0''"

definition knownBadUrl :: jsstring where
  "knownBadUrl =
     str ''https://capozzol02storage.blob.core.windows.net/bigolpotofdater/fieldpor''
       @ str ''tal/fp1/Gas%20Chromatography%20(PL%20AZ)/Procedure/GC%20Troubleshooting%''
       @ str ''20Guide%20-%20FID.pdf''"

text \<open>The first \<^verbatim>\<open>try\<close> block of \<^verbatim>\<open>decodeAndCleanUrl\<close>: decode, and decode again
  without the last character when the result does not contain \<^verbatim>\<open>http\<close>. On a value
  that is not a string its first call, \<^verbatim>\<open>b64.trim()\<close>, throws.\<close>

fun decodeWithRetry :: "jsval \<Rightarrow> exn + jsstring" where
  "decodeWithRetry (JStr b64) =
     (case customBase64Decode (trim b64) of
        Inl e \<Rightarrow> Inl e
      | Inr raw0 \<Rightarrow>
          if \<not> includes_str raw0 (str ''http'') \<and> length b64 > 1
          then (case customBase64Decode (slice_0_m1 (trim b64)) of
                  Inl e \<Rightarrow> Inl e
                | Inr retryResult \<Rightarrow>
                    Inr (if includes_str retryResult (str ''http'') then retryResult else raw0))
          else Inr raw0)"
| "decodeWithRetry b64 = Inl trimNotAFunction"

declare decodeWithRetry.simps [simp del]

text \<open>The part after \<^verbatim>\<open>// Look for a URL pattern ending with .pdf\<close>: the match, cut
  after the first \<^verbatim>\<open>.pdf\<close> of its lower-case form when there is one.\<close>

definition cleanMatch :: "jsstring \<Rightarrow> jsstring" where
  "cleanMatch m0 =
     (case indexOf (toLowerCase m0) (str ''.pdf'') of
        None \<Rightarrow> m0
      | Some pdfIndex \<Rightarrow> take (pdfIndex + 4) m0)"

text \<open>
  \<^verbatim>\<open>decodeAndCleanUrl(b64)\<close> of \<^verbatim>\<open>url-decoder.js\<close>. When the first \<^verbatim>\<open>try\<close> block
  throws, its \<^verbatim>\<open>catch\<close> evaluates \<^verbatim>\<open>b64.trim()\<close> again, outside any \<^verbatim>\<open>try\<close>.
\<close>

definition decodeAndCleanUrl :: "jsval \<Rightarrow> exn + decoded_url" where
  "decodeAndCleanUrl b64 =
     (if \<not> truthy b64 then Inr \<lparr>raw = None, cleaned = None\<rparr>
      else if b64 = JStr knownBadBase64
      then Inr \<lparr>raw = Some knownBadUrl, cleaned = Some knownBadUrl\<rparr>
      else
        case (case decodeWithRetry b64 of Inl e \<Rightarrow> callTrim b64 | Inr r \<Rightarrow> Inr r) of
          Inl e \<Rightarrow> Inl e
        | Inr raw1 \<Rightarrow>
            let decoded = (case decodeURIComponent (escape raw1) of
                             Inl e \<Rightarrow> raw1
                           | Inr d \<Rightarrow> d)
            in Inr \<lparr>raw = Some raw1, cleaned = map_option cleanMatch (matchUrl decoded)\<rparr>)"

section \<open>The textarea used to decode character references\<close>

text \<open>
  \<^verbatim>\<open>sanitizeSasToken\<close> assigns the token to \<^verbatim>\<open>innerHTML\<close> of a fresh
  \<^verbatim>\<open>textarea\<close> and reads \<^verbatim>\<open>value\<close> and \<^verbatim>\<open>textContent\<close> back. The document is a
  parameter of the model: a function from the markup to the two properties, or to the
  exception thrown (where there is no \<^verbatim>\<open>document\<close>).
\<close>

record textarea =
  ta_value :: jsstring
  ta_textContent :: jsstring

type_synonym dom = "jsstring \<Rightarrow> exn + textarea"

text \<open>
  The document of a browser, after the HTML standard. The markup of a \<^verbatim>\<open>textarea\<close> is
  tokenized in the RCDATA state of a fragment parser: newlines are normalized, U+0000
  becomes U+FFFD, character references are decoded, and everything else (also \<^verbatim>\<open><\<close>,
  no start tag having been emitted) is text. The table of named references is a
  parameter: pairs of a name as it follows \<^verbatim>\<open>&\<close> (with its \<^verbatim>\<open>;\<close> where it has one)
  and the text it stands for.
\<close>

type_synonym named_refs = "(jsstring \<times> jsstring) list"

fun normalizeNewlines :: "jsstring \<Rightarrow> jsstring" where
  "normalizeNewlines [] = []"
| "normalizeNewlines [c] = [if c = 13 then 10 else c]"
| "normalizeNewlines (c # d # s) =
     (if c = 13 \<and> d = 10 then 10 # normalizeNewlines s
      else if c = 13 then 10 # normalizeNewlines (d # s)
      else c # normalizeNewlines (d # s))"

text \<open>The digits at the start of \<open>s\<close> in the given base, added to \<open>acc\<close>; and the rest.\<close>

fun digitsValue :: "nat \<Rightarrow> nat \<Rightarrow> jsstring \<Rightarrow> nat \<times> jsstring" where
  "digitsValue base acc [] = (acc, [])"
| "digitsValue base acc (c # s) =
     (case hexDigitVal c of
        None \<Rightarrow> (acc, c # s)
      | Some d \<Rightarrow> if d < base then digitsValue base (acc * base + d) s else (acc, c # s))"

text \<open>The replacements of the numeric references \<^verbatim>\<open>0x80\<close> to \<^verbatim>\<open>0x9F\<close>.\<close>

definition c1Replacements :: "(nat \<times> nat) list" where
  "c1Replacements =
     [(128, 8364), (130, 8218), (131, 402), (132, 8222), (133, 8230), (134, 8224),
      (135, 8225), (136, 710), (137, 8240), (138, 352), (139, 8249), (140, 338),
      (142, 381), (145, 8216), (146, 8217), (147, 8220), (148, 8221), (149, 8226),
      (150, 8211), (151, 8212), (152, 732), (153, 8482), (154, 353), (155, 8250),
      (156, 339), (158, 382), (159, 376)]"

text \<open>The numeric character reference end state: the code point a number stands for.\<close>

definition numericEnd :: "nat \<Rightarrow> nat" where
  "numericEnd code =
     (if code = 0 \<or> code > 1114111 \<or> (55296 \<le> code \<and> code \<le> 57343) then 65533
      else case map_of c1Replacements code of Some r \<Rightarrow> r | None \<Rightarrow> code)"

definition skipSemicolon :: "jsstring \<Rightarrow> jsstring" where
  "skipSemicolon s = (if startsWith s (str '';'') then slice_1 s else s)"

definition startsWithDigit :: "nat \<Rightarrow> jsstring \<Rightarrow> bool" where
  "startsWithDigit base s \<longleftrightarrow>
     (case s of [] \<Rightarrow> False
      | c # r \<Rightarrow> (case hexDigitVal c of None \<Rightarrow> False | Some d \<Rightarrow> d < base))"

text \<open>A numeric reference, read after \<^verbatim>\<open>&#\<close>: the text it gives and the rest. Without a
  digit the characters read so far are text.\<close>

definition numericReference :: "jsstring \<Rightarrow> jsstring \<times> jsstring" where
  "numericReference s =
     (case s of
        [] \<Rightarrow> (str ''&#'', [])
      | x # r \<Rightarrow>
          if x = 120 \<or> x = 88
          then (if startsWithDigit 16 r
                then (let (v, rest) = digitsValue 16 0 r
                      in (utf16Encode (numericEnd v), skipSemicolon rest))
                else (str ''&#'' @ [x], r))
          else (if startsWithDigit 10 s
                then (let (v, rest) = digitsValue 10 0 s
                      in (utf16Encode (numericEnd v), skipSemicolon rest))
                else (str ''&#'', s)))"

text \<open>The longest name of the table that \<open>s\<close> starts with, if any.\<close>

definition longestNamed :: "named_refs \<Rightarrow> jsstring \<Rightarrow> (jsstring \<times> jsstring) option" where
  "longestNamed named s =
     fold (\<lambda>(name, txt) best.
             if startsWith s name \<and> (case best of None \<Rightarrow> True | Some (n, _) \<Rightarrow> length n < length name)
             then Some (name, txt) else best)
          named None"

text \<open>A character reference, read after \<^verbatim>\<open>&\<close>: the text it gives and the rest.\<close>

definition characterReference :: "named_refs \<Rightarrow> jsstring \<Rightarrow> jsstring \<times> jsstring" where
  "characterReference named s =
     (case s of
        [] \<Rightarrow> (str ''&'', [])
      | c # r \<Rightarrow>
          if c = 35 then numericReference r
          else if isAlnum c
          then (case longestNamed named s of
                  Some (name, txt) \<Rightarrow> (txt, drop (length name) s)
                | None \<Rightarrow> (str ''&'', s))
          else (str ''&'', s))"

lemma digitsValue_length: "digitsValue base acc s = (v, r) \<Longrightarrow> length r \<le> length s"
  by (induction base acc s arbitrary: v r rule: digitsValue.induct)
     (auto split: option.splits if_splits simp: le_SucI)

lemma skipSemicolon_length: "length (skipSemicolon s) \<le> length s"
  by (simp add: skipSemicolon_def slice_1_def)

lemma digits_then_semicolon_length:
  "digitsValue base 0 s = (v, rest) \<Longrightarrow> length (skipSemicolon rest) \<le> length s"
  using digitsValue_length [of base 0 s v rest] skipSemicolon_length [of rest] by simp

lemma numericReference_length: "numericReference s = (out, r) \<Longrightarrow> length r \<le> length s"
proof (cases s)
  case Nil
  then show "numericReference s = (out, r) \<Longrightarrow> length r \<le> length s"
    by (simp add: numericReference_def)
next
  case (Cons x t)
  assume nr: "numericReference s = (out, r)"
  obtain v16 r16 where d16: "digitsValue 16 0 t = (v16, r16)" by force
  obtain v10 r10 where d10: "digitsValue 10 0 s = (v10, r10)" by force
  from digits_then_semicolon_length [OF d16] digits_then_semicolon_length [OF d10]
  show "length r \<le> length s"
    using nr Cons d16 d10 unfolding numericReference_def
    by (auto split: if_splits)
qed

lemma characterReference_length:
  "characterReference named s = (out, r) \<Longrightarrow> length r \<le> length s"
  unfolding characterReference_def
  by (auto split: list.splits if_splits option.splits
      dest!: numericReference_length simp: le_SucI)

function rcdataText :: "named_refs \<Rightarrow> jsstring \<Rightarrow> jsstring" where
  "rcdataText named [] = []"
| "rcdataText named (c # s) =
     (if c = 38
      then (case characterReference named s of (out, rest) \<Rightarrow> out @ rcdataText named rest)
      else if c = 0 then 65533 # rcdataText named s
      else c # rcdataText named s)"
  by pat_completeness auto
termination
  by (relation "measure (\<lambda>(named, s). length s)")
     (auto dest: characterReference_length [OF sym])

text \<open>\<^verbatim>\<open>textContent\<close> is the text so parsed; \<^verbatim>\<open>value\<close> is that text with its newlines
  normalized once more (a CR can come from a numeric reference).\<close>

definition browserTextarea :: "named_refs \<Rightarrow> dom" where
  "browserTextarea named markup =
     (let txt = rcdataText named (normalizeNewlines markup)
      in Inr \<lparr>ta_value = normalizeNewlines txt, ta_textContent = txt\<rparr>)"

text \<open>Some entries of the table of named references of the HTML standard.\<close>

definition someNamedRefs :: named_refs where
  \<open>someNamedRefs =
     [(str ''amp;'', str ''&''), (str ''amp'', str ''&''),
      (str ''lt;'', str ''<''), (str ''lt'', str ''<''),
      (str ''gt;'', str ''>''), (str ''gt'', str ''>''),
      (str ''quot;'', str ''"''), (str ''quot'', str ''"''),
      (str ''apos;'', [39]), (str ''not'', [172]), (str ''notin;'', [8713])]\<close>

text \<open>
  Whether the text after a \<^verbatim>\<open>&\<close> makes a character reference of it: the parser then
  gives something else than the \<^verbatim>\<open>&\<close> and the text as they stand. \<open>noReference\<close>
  holds of a string none of whose \<^verbatim>\<open>&\<close> (38) begins a character reference.
\<close>

definition beginsReference :: "named_refs \<Rightarrow> jsstring \<Rightarrow> bool" where
  "beginsReference named s \<longleftrightarrow>
     (case characterReference named s of (out, rest) \<Rightarrow> out @ rest \<noteq> 38 # s)"

fun noReference :: "named_refs \<Rightarrow> jsstring \<Rightarrow> bool" where
  "noReference named [] = True"
| "noReference named (c # s) =
     ((c = 38 \<longrightarrow> \<not> beginsReference named s) \<and> noReference named s)"

text \<open>No named reference stands for a text with U+0000; this holds of the table of the
  HTML standard.\<close>

definition textsWithoutNull :: "named_refs \<Rightarrow> bool" where
  "textsWithoutNull named \<longleftrightarrow> list_all (\<lambda>(name, tx). 0 \<notin> set tx) named"

section \<open>sanitizeSasToken\<close>

text \<open>A token wrapped in double quotes (34) or in single quotes (39) loses them.\<close>

definition stripQuotes :: "jsstring \<Rightarrow> jsstring" where
  "stripQuotes t =
     (if (startsWith t [34] \<and> endsWith t [34]) \<or> (startsWith t [39] \<and> endsWith t [39])
      then slice_1_m1 t else t)"

text \<open>
  \<^verbatim>\<open>sanitizeSasToken(token)\<close> of \<^verbatim>\<open>url-decoder.js\<close>, on a string. An exception of the
  document is caught and the token is returned as it came.
\<close>

definition sanitizeSasToken :: "dom \<Rightarrow> jsstring \<Rightarrow> jsstring" where
  "sanitizeSasToken document token =
     (if token = [] then []
      else
        let t = stripQuotes (trim token)
        in case document t of
             Inl e \<Rightarrow> token
           | Inr textarea \<Rightarrow>
               if ta_value textarea \<noteq> [] then ta_value textarea
               else if ta_textContent textarea \<noteq> [] then ta_textContent textarea
               else t)"

section \<open>The HTML of createDownloadLink\<close>

text \<open>The fixed text of the template literals of \<^verbatim>\<open>createDownloadLink\<close> in
  \<^verbatim>\<open>url-decoder.js\<close>, cut where a value is inserted.\<close>

definition noInputHtml :: jsstring where
  \<open>noInputHtml =
     str ''\<newline>            <div class="mt-4 p-3 bg-red-50 border border-red-200 ''
     @ str ''rounded text-sm text-red-600">''
     @ str ''\<newline>              <p><strong>Error:</strong> No Base64 URL provided.</p>''
     @ str ''\<newline>            </div>''
     @ str ''\<newline>          ''\<close>

definition notExtractedHead :: jsstring where
  \<open>notExtractedHead =
     str ''\<newline>              <div class="mt-4 p-3 bg-yellow-50 border ''
     @ str ''border-yellow-200 rounded text-sm text-yellow-800">''
     @ str ''\<newline>                <p><strong>Note:</strong> Could not extract a valid ''
     @ str ''PDF URL from the Base64 string.</p>''
     @ str ''\<newline>                ''\<close>

definition base64InputOpen :: jsstring where
  \<open>base64InputOpen =
     str ''<p class="mt-2"><strong>Base64 Input:</strong> <code class="text-xs ''
     @ str ''bg-gray-100 p-1 rounded break-all">''\<close>

definition codeClose :: jsstring where
  \<open>codeClose =
     str ''</code></p>''\<close>

definition notExtractedSep :: jsstring where
  \<open>notExtractedSep =
     str ''\<newline>                ''\<close>

definition rawDecodedOpen :: jsstring where
  \<open>rawDecodedOpen =
     str ''<p class="mt-2"><strong>Raw Decoded:</strong> <code class="text-xs ''
     @ str ''bg-gray-100 p-1 rounded break-all">''\<close>

definition notExtractedTail :: jsstring where
  \<open>notExtractedTail =
     str ''\<newline>              </div>''
     @ str ''\<newline>            ''\<close>

definition successHead :: jsstring where
  \<open>successHead =
     str ''\<newline>            <div class="mt-4 p-3 bg-green-50 border border-green-200 ''
     @ str ''rounded text-sm">''
     @ str ''\<newline>              <h4 class="font-medium text-green-800 mb-2">Source ''
     @ str ''Document Available</h4>''
     @ str ''\<newline>              ''\<close>

definition detailsBase64Open :: jsstring where
  \<open>detailsBase64Open =
     str ''\<newline>                <p class="mb-2"><strong>Base64 Input:</strong> <code ''
     @ str ''class="text-xs bg-gray-100 p-1 rounded break-all">''\<close>

definition detailsRawOpen :: jsstring where
  \<open>detailsRawOpen =
     str ''</code></p>''
     @ str ''\<newline>                <p class="mb-2"><strong>Raw Decoded:</strong> <code ''
     @ str ''class="text-xs bg-gray-100 p-1 rounded break-all">''\<close>

definition detailsCleanedOpen :: jsstring where
  \<open>detailsCleanedOpen =
     str ''</code></p>''
     @ str ''\<newline>                <p class="mb-2"><strong>Cleaned URL:</strong> <code ''
     @ str ''class="text-xs bg-green-100 text-green-800 p-1 rounded break-all">''\<close>

definition detailsClose :: jsstring where
  \<open>detailsClose =
     str ''</code></p>''
     @ str ''\<newline>              ''\<close>

definition linkOpen :: jsstring where
  \<open>linkOpen =
     str ''\<newline>              <div class="mt-3">''
     @ str ''\<newline>                <a href="''\<close>

definition linkDataUrl :: jsstring where
  \<open>linkDataUrl =
     str ''" target="_blank" class="inline-block bg-green-600 text-white ''
     @ str ''font-semibold py-2 px-4 rounded-md hover:bg-green-700 transition ''
     @ str ''text-sm download-source-link" data-dl-url="''\<close>

definition linkClose :: jsstring where
  \<open>linkClose =
     str ''">''
     @ str ''\<newline>                  <svg xmlns="http://www.w3.org/2000/svg" class="h-4 ''
     @ str ''w-4 inline-block mr-1" fill="none" viewBox="0 0 24 24" ''
     @ str ''stroke="currentColor">''
     @ str ''\<newline>                    <path stroke-linecap="round" ''
     @ str ''stroke-linejoin="round" stroke-width="2" d="M4 16v1a3 3 0 003 3h10a3 ''
     @ str ''3 0 003-3v-1m-4-4l-4 4m0 0l-4-4m4 4V4" />''
     @ str ''\<newline>                  </svg>''
     @ str ''\<newline>                  Download Source Document''
     @ str ''\<newline>                </a>''
     @ str ''\<newline>              </div>''
     @ str ''\<newline>            </div>''
     @ str ''\<newline>          ''\<close>

definition errorHead :: jsstring where
  \<open>errorHead =
     str ''\<newline>            <div class="mt-4 p-3 bg-red-50 border border-red-200 ''
     @ str ''rounded text-sm text-red-600">''
     @ str ''\<newline>              <p><strong>Error:</strong> Failed to decode Base64 URL: ''\<close>

definition errorTail :: jsstring where
  \<open>errorTail =
     str ''</p>''
     @ str ''\<newline>            </div>''
     @ str ''\<newline>          ''\<close>

text \<open>The result object \<^verbatim>\<open>{html, success, error}\<close>; \<open>None\<close> is \<^verbatim>\<open>null\<close>.\<close>

record link_result =
  html :: jsstring
  success :: bool
  error :: "jsstring option"

text \<open>The notice of the branch \<^verbatim>\<open>if (!cleaned)\<close>: with \<open>showDetails\<close> the input is
  inserted, and the raw string when it is not empty.\<close>

definition notExtractedHtml :: "bool \<Rightarrow> jsval \<Rightarrow> jsstring option \<Rightarrow> jsstring" where
  "notExtractedHtml showDetails base64Url rawStr =
     notExtractedHead
     @ (if showDetails then base64InputOpen @ toString base64Url @ codeClose else [])
     @ notExtractedSep
     @ (case rawStr of
          None \<Rightarrow> []
        | Some r \<Rightarrow> if showDetails \<and> r \<noteq> [] then rawDecodedOpen @ r @ codeClose else [])
     @ notExtractedTail"

text \<open>\<^verbatim>\<open>raw || '(failed)'\<close>\<close>

definition rawOrFailed :: "jsstring option \<Rightarrow> jsstring" where
  "rawOrFailed rawStr = (case rawStr of None \<Rightarrow> str ''(failed)'' | Some r \<Rightarrow> if r = [] then str ''(failed)'' else r)"

definition successHtml :: "bool \<Rightarrow> jsval \<Rightarrow> jsstring option \<Rightarrow> jsstring \<Rightarrow> jsstring \<Rightarrow> jsstring" where
  "successHtml showDetails base64Url rawStr cleanedUrl downloadLink =
     successHead
     @ (if showDetails
        then detailsBase64Open @ toString base64Url
             @ detailsRawOpen @ rawOrFailed rawStr
             @ detailsCleanedOpen @ cleanedUrl @ detailsClose
        else [])
     @ linkOpen @ downloadLink @ linkDataUrl @ downloadLink @ linkClose"

definition errorHtml :: "jsstring \<Rightarrow> jsstring" where
  "errorHtml msg = errorHead @ msg @ errorTail"

section \<open>createDownloadLink\<close>

text \<open>\<^verbatim>\<open>(window.APP_CONFIG && window.APP_CONFIG.sasToken) || ''\<close>: the configured token
  is \<open>None\<close> when the configuration or its token is missing.\<close>

definition configuredToken :: "jsstring option \<Rightarrow> jsstring" where
  "configuredToken sasToken = (case sasToken of None \<Rightarrow> [] | Some t \<Rightarrow> t)"

text \<open>The body of the \<^verbatim>\<open>try\<close> block of \<^verbatim>\<open>createDownloadLink\<close>.\<close>

definition resolveLink :: "dom \<Rightarrow> jsstring option \<Rightarrow> jsval \<Rightarrow> bool \<Rightarrow> exn + link_result" where
  "resolveLink document sasToken base64Url showDetails =
     (case decodeAndCleanUrl base64Url of
        Inl e \<Rightarrow> Inl e
      | Inr d \<Rightarrow>
          (case cleaned d of
             None \<Rightarrow>
               Inr \<lparr>html = notExtractedHtml showDetails base64Url (raw d), success = False,
                    error = Some (str ''Could not extract a valid PDF URL'')\<rparr>
           | Some c \<Rightarrow>
               if c = []
               then Inr \<lparr>html = notExtractedHtml showDetails base64Url (raw d), success = False,
                         error = Some (str ''Could not extract a valid PDF URL'')\<rparr>
               else
                 let SAS_TOKEN = sanitizeSasToken document (configuredToken sasToken);
                     downloadLink = appendSasToken c SAS_TOKEN
                 in Inr \<lparr>html = successHtml showDetails base64Url (raw d) c downloadLink,
                         success = True, error = None\<rparr>))"

text \<open>
  \<^verbatim>\<open>createDownloadLink(base64Url, showDetails)\<close> of \<^verbatim>\<open>url-decoder.js\<close>: the check of
  the argument, then the \<^verbatim>\<open>try\<close> block, whose exception the \<^verbatim>\<open>catch\<close> turns into a
  result. The document and the configured token are parameters.
\<close>

definition createDownloadLink :: "dom \<Rightarrow> jsstring option \<Rightarrow> jsval \<Rightarrow> bool \<Rightarrow> exn + link_result" where
  "createDownloadLink document sasToken base64Url showDetails =
     (if \<not> truthy base64Url
      then Inr \<lparr>html = noInputHtml, success = False,
                error = Some (str ''No Base64 URL provided'')\<rparr>
      else
        case resolveLink document sasToken base64Url showDetails of
          Inr result \<Rightarrow> Inr result
        | Inl e \<Rightarrow> Inr \<lparr>html = errorHtml (message e), success = False,
                         error = Some (message e)\<rparr>)"

section \<open>The createDownloadLink of the dynamic container\<close>

text \<open>The method \<^verbatim>\<open>createDownloadLink(base64Url)\<close> of the class
  \<^verbatim>\<open>DynamicContainer\<close>: the links go to the server, which resolves the reference.\<close>

definition proxiedNoInputHtml :: jsstring where
  \<open>proxiedNoInputHtml =
     str ''\<newline>          <div class="mt-4 p-3 bg-red-50 border border-red-200 ''
     @ str ''rounded text-sm text-red-600">''
     @ str ''\<newline>            <p><strong>Error:</strong> No Base64 URL provided.</p>''
     @ str ''\<newline>          </div>''
     @ str ''\<newline>        ''\<close>

definition proxiedHead :: jsstring where
  \<open>proxiedHead =
     str ''\<newline>          <div class="mt-4 p-3 bg-green-50 border border-green-200 ''
     @ str ''rounded text-sm">''
     @ str ''\<newline>            <h4 class="font-medium text-green-800 mb-2">Source ''
     @ str ''Document Available</h4>''
     @ str ''\<newline>            <div class="mt-3 flex gap-2 flex-wrap">''
     @ str ''\<newline>                <a href="''\<close>

definition proxiedViewClose :: jsstring where
  \<open>proxiedViewClose =
     str ''" target="_blank" rel="noopener noreferrer" class="inline-flex ''
     @ str ''items-center bg-blue-600 text-white font-semibold py-2 px-4 ''
     @ str ''rounded-md hover:bg-blue-700 transition text-sm cursor-pointer ''
     @ str ''border-0 no-underline">''
     @ str ''\<newline>                  <svg xmlns="http://www.w3.org/2000/svg" class="h-4 ''
     @ str ''w-4 mr-1" fill="none" viewBox="0 0 24 24" stroke="currentColor">''
     @ str ''\<newline>                    <path stroke-linecap="round" ''
     @ str ''stroke-linejoin="round" stroke-width="2" d="M15 12a3 3 0 11-6 0 3 3 0 ''
     @ str ''016 0z" />''
     @ str ''\<newline>                    <path stroke-linecap="round" ''
     @ str ''stroke-linejoin="round" stroke-width="2" d="M2.458 12C3.732 7.943 ''
     @ str ''7.523 5 12 5c4.478 0 8.268 2.943 9.542 7-1.274 4.057-5.064 7-9.542 ''
     @ str ''7-4.477 0-8.268-2.943-9.542-7z" />''
     @ str ''\<newline>                  </svg>''
     @ str ''\<newline>                  View Source''
     @ str ''\<newline>                </a>''
     @ str ''\<newline>                <a href="''\<close>

definition proxiedDataUrl :: jsstring where
  \<open>proxiedDataUrl =
     str ''" target="_blank" class="inline-flex items-center bg-green-600 ''
     @ str ''text-white font-semibold py-2 px-4 rounded-md hover:bg-green-700 ''
     @ str ''transition text-sm download-source-link" data-dl-url="''\<close>

definition proxiedTail :: jsstring where
  \<open>proxiedTail =
     str ''">''
     @ str ''\<newline>                  <svg xmlns="http://www.w3.org/2000/svg" class="h-4 ''
     @ str ''w-4 mr-1" fill="none" viewBox="0 0 24 24" stroke="currentColor">''
     @ str ''\<newline>                    <path stroke-linecap="round" ''
     @ str ''stroke-linejoin="round" stroke-width="2" d="M4 16v1a3 3 0 003 3h10a3 ''
     @ str ''3 0 003-3v-1m-4-4l-4 4m0 0l-4-4m4 4V4" />''
     @ str ''\<newline>                  </svg>''
     @ str ''\<newline>                  Download''
     @ str ''\<newline>                </a>''
     @ str ''\<newline>            </div>''
     @ str ''\<newline>          </div>''
     @ str ''\<newline>        ''\<close>

definition proxiedCreateDownloadLink :: "jsval \<Rightarrow> link_result" where
  "proxiedCreateDownloadLink base64Url =
     (if \<not> truthy base64Url
      then \<lparr>html = proxiedNoInputHtml, success = False,
            error = Some (str ''No Base64 URL provided'')\<rparr>
      else
        let downloadLink = str ''/api/download/'' @ toString base64Url;
            viewLink = str ''/api/view/'' @ toString base64Url
        in \<lparr>html = proxiedHead @ viewLink @ proxiedViewClose @ downloadLink
                   @ proxiedDataUrl @ downloadLink @ proxiedTail,
            success = True, error = None\<rparr>)"

section \<open>Escaping\<close>

text \<open>\<^verbatim>\<open>s.replace(/c/g, r)\<close> for a single character \<open>c\<close>.\<close>

definition replaceAll :: "nat \<Rightarrow> jsstring \<Rightarrow> jsstring \<Rightarrow> jsstring" where
  "replaceAll c r s = concat (map (\<lambda>x. if x = c then r else [x]) s)"

text \<open>\<^verbatim>\<open>escapeHtml(unsafe)\<close> of \<^verbatim>\<open>dashboard_script.js\<close>: the five replacements, in
  the order of the source (38 is \<^verbatim>\<open>&\<close>, 60 \<^verbatim>\<open><\<close>, 62 \<^verbatim>\<open>>\<close>, 34 the double and 39
  the single quote).\<close>

definition escapeHtml :: "jsstring \<Rightarrow> jsstring" where
  "escapeHtml unsafe =
     (if unsafe = [] then []
      else replaceAll 39 (str ''&#039;'')
            (replaceAll 34 (str ''&quot;'')
              (replaceAll 62 (str ''&gt;'')
                (replaceAll 60 (str ''&lt;'')
                  (replaceAll 38 (str ''&amp;'') unsafe)))))"

text \<open>A string without the five characters that \<open>escapeHtml\<close> replaces.\<close>

definition htmlPlain :: "jsstring \<Rightarrow> bool" where
  "htmlPlain v \<longleftrightarrow> 38 \<notin> set v \<and> 60 \<notin> set v \<and> 62 \<notin> set v \<and> 34 \<notin> set v \<and> 39 \<notin> set v"








section \<open>The standard encodings\<close>

text \<open>
  What the round trip starts from: a text is a list of Unicode scalar values; its
  JavaScript string is its UTF-16 form, and the reference is the Base64 encoding
  (RFC 4648, with padding) of its UTF-8 form.
\<close>

definition isScalarValue :: "nat \<Rightarrow> bool" where
  "isScalarValue v \<longleftrightarrow> v \<le> 1114111 \<and> \<not> (55296 \<le> v \<and> v \<le> 57343)"

definition utf16 :: "nat list \<Rightarrow> jsstring" where
  "utf16 u = concat (map utf16Encode u)"

definition utf8EncodeCodePoint :: "nat \<Rightarrow> nat list" where
  "utf8EncodeCodePoint v =
     (if v < 128 then [v]
      else if v < 2048 then [192 + v div 64, 128 + v mod 64]
      else if v < 65536 then [224 + v div 4096, 128 + v div 64 mod 64, 128 + v mod 64]
      else [240 + v div 262144, 128 + v div 4096 mod 64, 128 + v div 64 mod 64, 128 + v mod 64])"

definition utf8 :: "nat list \<Rightarrow> nat list" where
  "utf8 u = concat (map utf8EncodeCodePoint u)"

definition b64char :: "nat \<Rightarrow> nat" where
  "b64char v =
     (if v < 26 then 65 + v else if v < 52 then 71 + v else if v < 62 then v - 4
      else if v = 62 then 43 else 47)"

fun base64Encode :: "nat list \<Rightarrow> jsstring" where
  "base64Encode (a # b # c # r) =
     b64char (a div 4) # b64char ((a mod 4) * 16 + b div 16)
     # b64char ((b mod 16) * 4 + c div 64) # b64char (c mod 64) # base64Encode r"
| "base64Encode [a, b] =
     [b64char (a div 4), b64char ((a mod 4) * 16 + b div 16), b64char ((b mod 16) * 4), 61]"
| "base64Encode [a] = [b64char (a div 4), b64char ((a mod 4) * 16), 61, 61]"
| "base64Encode [] = []"

text \<open>Every occurrence of \<^verbatim>\<open>.pdf\<close>, in any letter case, is the end of the text.\<close>

fun pdfOnlyAtEnd :: "jsstring \<Rightarrow> bool" where
  "pdfOnlyAtEnd [] = True"
| "pdfOnlyAtEnd (c # s) =
     ((ciStartsWith (c # s) (str ''.pdf'') \<longrightarrow> length s = 3) \<and> pdfOnlyAtEnd s)"

section \<open>Properties of appendSasToken\<close>

lemma includes_single: "includes_str s [c] \<longleftrightarrow> c \<in> set s"
  by (induction s) (auto simp: startsWith_def)

lemma appendSasToken_count:
  assumes "sasToken \<noteq> []"
  shows "count_list (appendSasToken url sasToken) 63 =
           count_list url 63
           + (if 63 \<in> set url then 0 else 1)
           + count_list (if hd sasToken = 63 then tl sasToken else sasToken) 63"
proof -
  have sw: "startsWith sasToken [63] \<longleftrightarrow> hd sasToken = 63"
    using assms by (cases sasToken) (auto simp: startsWith_def)
  show ?thesis
    using assms
    by (simp add: appendSasToken_def Let_def sw includes_single str_def slice_1_def)
qed

text \<open>
  C7, as the code has it. Only one leading \<^verbatim>\<open>?\<close> of the token is removed, and question
  marks already in the URL or inside the token are kept, so "exactly one" needs the URL to
  hold at most one \<^verbatim>\<open>?\<close> and the token to hold none beyond a single leading one. Then
  the result of \<open>appendSasToken\<close> contains exactly one \<^verbatim>\<open>?\<close>.
\<close>

theorem appendSasToken_one_question_mark:
  assumes "sasToken \<noteq> []"
    and "count_list url 63 \<le> 1"
    and "63 \<notin> set (if hd sasToken = 63 then tl sasToken else sasToken)"
  shows "count_list (appendSasToken url sasToken) 63 = 1"
proof -
  have tok: "count_list (if hd sasToken = 63 then tl sasToken else sasToken) 63 = 0"
    using assms(3) by (simp add: count_list_0_iff)
  have "count_list url 63 + (if 63 \<in> set url then 0 else 1) = (1::nat)"
  proof (cases "63 \<in> set url")
    case True
    then have "count_list url 63 \<noteq> 0" by (simp add: count_list_0_iff)
    with assms(2) True show ?thesis by simp
  next
    case False
    then show ?thesis by (simp add: count_list_0_iff)
  qed
  with tok appendSasToken_count [OF assms(1), of url] show ?thesis by simp
qed

theorem appendSasToken_one_question_mark_witness:
  "str ''?tok=1'' \<noteq> [] \<and> count_list (str ''https://x/y.pdf'') 63 \<le> 1
   \<and> 63 \<notin> set (if hd (str ''?tok=1'') = 63 then tl (str ''?tok=1'') else str ''?tok=1'')
   \<and> count_list (appendSasToken (str ''https://x/y.pdf'') (str ''?tok=1'')) 63 = 1"
  using appendSasToken_one_question_mark [of "str ''?tok=1''" "str ''https://x/y.pdf''"]
  by (simp add: str_def)

theorem appendSasToken_counterexample:
  "str ''??tok=1'' \<noteq> []
   \<and> count_list (appendSasToken (str ''https://x/y.pdf'') (str ''??tok=1'')) 63 = 2
   \<and> count_list (appendSasToken (str ''https://x/y.pdf'') (str ''??tok=1'')) 63 \<noteq> 1"
  by (simp add: appendSasToken_def str_def startsWith_def slice_1_def)

section \<open>The decoder always returns\<close>

lemma customBase64Decode_returns: "\<exists>r. customBase64Decode input = Inr r"
proof (induction input rule: customBase64Decode.induct)
  case (1 input)
  show ?case
  proof (cases "input = []")
    case True
    then show ?thesis by (simp add: customBase64Decode.simps)
  next
    case False
    show ?thesis
    proof (cases "atob (pad4 (stripTrailingNonB64 input))")
      case (Inr r)
      with False show ?thesis by (subst customBase64Decode.simps) (simp add: Let_def)
    next
      case (Inl e)
      show ?thesis
      proof (cases "urlSafeDecode (pad4 (stripTrailingNonB64 input))")
        case (Inr r)
        with False Inl show ?thesis by (subst customBase64Decode.simps) (simp add: Let_def)
      next
        case e2: (Inl e2)
        show ?thesis
        proof (cases "length (stripTrailingNonB64 input) > 1")
          case True
          from "1.IH" [OF False refl refl Inl e2 True]
          obtain r where "customBase64Decode (slice_0_m1 (stripTrailingNonB64 input)) = Inr r" ..
          with False Inl e2 True show ?thesis
            by (subst customBase64Decode.simps) (simp add: Let_def)
        next
          case F: False
          with False Inl e2 show ?thesis
            by (subst customBase64Decode.simps) (simp add: Let_def)
        qed
      qed
    qed
  qed
qed

lemma decodeWithRetry_JStr_returns: "\<exists>r. decodeWithRetry (JStr s) = Inr r"
proof -
  obtain r0 where r0: "customBase64Decode (trim s) = Inr r0"
    using customBase64Decode_returns by blast
  obtain r1 where r1: "customBase64Decode (slice_0_m1 (trim s)) = Inr r1"
    using customBase64Decode_returns by blast
  show ?thesis by (simp add: decodeWithRetry.simps r0 r1)
qed

lemma decodeAndCleanUrl_JStr_raw:
  assumes "s \<noteq> []"
  shows "\<exists>r c. decodeAndCleanUrl (JStr s) = Inr \<lparr>raw = Some r, cleaned = c\<rparr>"
proof -
  obtain r where r: "decodeWithRetry (JStr s) = Inr r"
    using decodeWithRetry_JStr_returns by blast
  show ?thesis
    using assms by (simp add: decodeAndCleanUrl_def r Let_def)
qed

section \<open>Results of decodeAndCleanUrl and createDownloadLink\<close>

text \<open>
  C10. For every non-empty input string \<open>decodeAndCleanUrl\<close> returns and the field
  \<open>raw\<close> of its result is a string (\<open>decodeAndCleanUrl_JStr_raw\<close>), also when no URL is
  found and \<open>cleaned\<close> is \<^verbatim>\<open>null\<close>. But when every attempt at decoding fails, the string
  is not the trimmed input: \<open>customBase64Decode\<close> throws nothing, so the \<^verbatim>\<open>catch\<close> that
  assigns \<^verbatim>\<open>b64.trim()\<close> is not reached, and \<open>raw\<close> is what \<open>customBase64Decode\<close>
  returned. On \<^verbatim>\<open>a!b\<close>, which is its own trimmed form, \<^verbatim>\<open>atob\<close> and the URL-safe attempt
  fail, the decoder and the retry of \<open>decodeAndCleanUrl\<close> both give \<^verbatim>\<open>a!\<close>, and
  \<open>raw\<close> is \<^verbatim>\<open>a!\<close>.
\<close>

theorem decodeAndCleanUrl_raw_is_truncated_input:
  "trim (str ''a!b'') = str ''a!b''
   \<and> atob (pad4 (stripTrailingNonB64 (trim (str ''a!b'')))) = Inl atobError
   \<and> urlSafeDecode (pad4 (stripTrailingNonB64 (trim (str ''a!b'')))) = Inl atobError
   \<and> customBase64Decode (trim (str ''a!b'')) = Inr (str ''a!'')
   \<and> customBase64Decode (slice_0_m1 (trim (str ''a!b''))) = Inr (str ''a!'')
   \<and> decodeAndCleanUrl (JStr (str ''a!b'')) = Inr \<lparr>raw = Some (str ''a!''), cleaned = None\<rparr>
   \<and> Some (str ''a!'') \<noteq> Some (trim (str ''a!b''))"
  by code_simp

text \<open>
  C8. For an empty or null reference (\<^verbatim>\<open>null\<close>, \<^verbatim>\<open>undefined\<close> or the empty string)
  \<open>createDownloadLink\<close> throws nothing and returns the failure result with
  \<open>success\<close> false and the error \<^verbatim>\<open>No Base64 URL provided\<close>, and
  \<open>decodeAndCleanUrl\<close> returns \<^verbatim>\<open>{raw: null, cleaned: null}\<close>.
\<close>

theorem empty_reference_fails:
  assumes "base64Url = JNull \<or> base64Url = JUndefined \<or> base64Url = JStr []"
  shows "createDownloadLink document sasToken base64Url showDetails =
           Inr \<lparr>html = noInputHtml, success = False,
                error = Some (str ''No Base64 URL provided'')\<rparr>
         \<and> decodeAndCleanUrl base64Url = Inr \<lparr>raw = None, cleaned = None\<rparr>"
  using assms by (auto simp: createDownloadLink_def decodeAndCleanUrl_def)

theorem empty_reference_fails_witness:
  "(JStr [] = JNull \<or> JStr [] = JUndefined \<or> JStr [] = JStr [])
   \<and> createDownloadLink (browserTextarea someNamedRefs) None (JStr []) True =
           Inr \<lparr>html = noInputHtml, success = False,
                error = Some (str ''No Base64 URL provided'')\<rparr>
   \<and> decodeAndCleanUrl (JStr []) = Inr \<lparr>raw = None, cleaned = None\<rparr>"
  using empty_reference_fails [of "JStr []" "browserTextarea someNamedRefs" None True] by simp

lemma resolveLink_cases:
  "(\<exists>e. resolveLink document sasToken b showDetails = Inl e)
   \<or> (\<exists>r. resolveLink document sasToken b showDetails = Inr r \<and> (success r \<longleftrightarrow> error r = None))"
  by (cases "decodeAndCleanUrl b")
     (auto simp: resolveLink_def Let_def split: option.splits)

text \<open>
  C9. Every result of \<open>createDownloadLink\<close>, in \<^verbatim>\<open>url-decoder.js\<close> and in the dynamic
  container, has \<open>success\<close> true exactly when its \<open>error\<close> is \<^verbatim>\<open>null\<close>.
\<close>

theorem success_iff_error_null:
  "(\<exists>r. createDownloadLink document sasToken base64Url showDetails = Inr r
        \<and> (success r \<longleftrightarrow> error r = None))
   \<and> (success (proxiedCreateDownloadLink base64Url)
        \<longleftrightarrow> error (proxiedCreateDownloadLink base64Url) = None)"
proof
  show "\<exists>r. createDownloadLink document sasToken base64Url showDetails = Inr r
          \<and> (success r \<longleftrightarrow> error r = None)"
    using resolveLink_cases [of document sasToken base64Url showDetails]
    by (auto simp: createDownloadLink_def)
  show "success (proxiedCreateDownloadLink base64Url)
          \<longleftrightarrow> error (proxiedCreateDownloadLink base64Url) = None"
    by (simp add: proxiedCreateDownloadLink_def Let_def)
qed

text \<open>
  C2. \<open>createDownloadLink\<close> always returns a result object, whatever the reference is:
  no exception leaves it. When the decoding, cleaning and token steps of its \<^verbatim>\<open>try\<close>
  block (\<open>resolveLink\<close>) throw, the result has \<open>success\<close> false and the message of the
  exception as its \<open>error\<close>.
\<close>

theorem createDownloadLink_never_throws:
  "\<exists>r. createDownloadLink document sasToken base64Url showDetails = Inr r
       \<and> (\<forall>e. truthy base64Url \<and> resolveLink document sasToken base64Url showDetails = Inl e
              \<longrightarrow> success r = False \<and> error r = Some (message e))"
  by (cases "resolveLink document sasToken base64Url showDetails")
     (auto simp: createDownloadLink_def)

theorem createDownloadLink_never_throws_witness:
  "truthy (JBool True)
   \<and> resolveLink (browserTextarea someNamedRefs) None (JBool True) False = Inl trimNotAFunction
   \<and> (\<exists>r. createDownloadLink (browserTextarea someNamedRefs) None (JBool True) False = Inr r
          \<and> success r = False \<and> error r = Some (str ''b64.trim is not a function''))"
proof -
  have r: "resolveLink (browserTextarea someNamedRefs) None (JBool True) False
             = Inl trimNotAFunction"
    by (simp add: resolveLink_def decodeAndCleanUrl_def decodeWithRetry.simps)
  from createDownloadLink_never_throws
         [of "browserTextarea someNamedRefs" None "JBool True" False] r
  show ?thesis by (auto simp: trimNotAFunction_def)
qed

section \<open>sanitizeSasToken applied twice\<close>

lemma normalizeNewlines_plain: "13 \<notin> set s \<Longrightarrow> normalizeNewlines s = s"
  by (induction s rule: normalizeNewlines.induct) auto

lemma normalizeNewlines_no_CR: "13 \<notin> set (normalizeNewlines s)"
  by (induction s rule: normalizeNewlines.induct) auto

lemma normalizeNewlines_no_null: "0 \<notin> set s \<Longrightarrow> 0 \<notin> set (normalizeNewlines s)"
  by (induction s rule: normalizeNewlines.induct) auto

lemma normalizeNewlines_Nil: "normalizeNewlines s = [] \<longleftrightarrow> s = []"
  by (induction s rule: normalizeNewlines.induct) auto

lemma noReference_suffix: "noReference named (pre @ rest) \<Longrightarrow> noReference named rest"
  by (induction pre) simp_all

lemma rcdataText_unchanged:
  "noReference named s \<Longrightarrow> 0 \<notin> set s \<Longrightarrow> rcdataText named s = s"
proof (induction named s rule: rcdataText.induct)
  case (1 named)
  show ?case by simp
next
  case (2 named c s)
  show ?case
  proof (cases "c = 38")
    case False
    with 2 show ?thesis by simp
  next
    case True
    obtain out rest where cr: "characterReference named s = (out, rest)" by force
    from "2.prems"(1) True cr have e: "out @ rest = 38 # s"
      by (simp add: beginsReference_def)
    have "out \<noteq> []"
    proof
      assume "out = []"
      with e have "length rest = Suc (length s)" by simp
      with characterReference_length [OF cr] show False by simp
    qed
    with e obtain out' where s: "s = out' @ rest" by (cases out) auto
    from "2.prems" have "noReference named s" "0 \<notin> set s" by simp_all
    then have "noReference named rest" "0 \<notin> set rest"
      unfolding s by (auto dest: noReference_suffix)
    with "2.IH" True cr have "rcdataText named rest = rest" by auto
    with True cr e show ?thesis by simp
  qed
qed


text \<open>What the parser writes holds no U+0000.\<close>

lemma utf16Encode_no_null: "v \<noteq> 0 \<Longrightarrow> 0 \<notin> set (utf16Encode v)"
  by (simp add: utf16Encode_def)

lemma numericEnd_not_null: "numericEnd code \<noteq> 0"
proof (cases "map_of c1Replacements code")
  case None
  then show ?thesis by (simp add: numericEnd_def)
next
  case (Some r)
  then have "(code, r) \<in> set c1Replacements" by (rule map_of_SomeD)
  then have "r \<noteq> 0" by (auto simp: c1Replacements_def)
  with Some show ?thesis by (simp add: numericEnd_def)
qed

lemma numericReference_no_null: "numericReference s = (out, rest) \<Longrightarrow> 0 \<notin> set out"
  unfolding numericReference_def
  by (auto simp: str_def utf16Encode_no_null numericEnd_not_null
      split: list.splits if_splits prod.splits)

lemma fold_longest:
  "fold (\<lambda>(name, tx) best.
           if startsWith s name \<and> (case best of None \<Rightarrow> True | Some (n, _) \<Rightarrow> length n < length name)
           then Some (name, tx) else best) named b = Some x
   \<Longrightarrow> x \<in> set named \<or> b = Some x"
proof (induction named arbitrary: b)
  case Nil
  then show ?case by simp
next
  case (Cons p named)
  obtain name tx where p: "p = (name, tx)" by (cases p)
  define b' where "b' = (if startsWith s name \<and> (case b of None \<Rightarrow> True | Some (n, _) \<Rightarrow> length n < length name)
           then Some (name, tx) else b)"
  from Cons.prems have "fold (\<lambda>(name, tx) best.
           if startsWith s name \<and> (case best of None \<Rightarrow> True | Some (n, _) \<Rightarrow> length n < length name)
           then Some (name, tx) else best) named b' = Some x"
    by (simp add: p b'_def)
  then have "x \<in> set named \<or> b' = Some x" by (rule Cons.IH)
  then show ?case by (auto simp: b'_def p split: if_splits)
qed

lemma longestNamed_in_table: "longestNamed named s = Some x \<Longrightarrow> x \<in> set named"
  unfolding longestNamed_def by (drule fold_longest) simp

lemma characterReference_no_null:
  assumes "textsWithoutNull named" "characterReference named s = (out, rest)"
  shows "0 \<notin> set out"
proof (cases s)
  case Nil
  with assms(2) show ?thesis by (auto simp: characterReference_def str_def)
next
  case (Cons c r)
  show ?thesis
  proof (cases "c = 35")
    case True
    with assms(2) Cons have "numericReference r = (out, rest)"
      by (simp add: characterReference_def)
    then show ?thesis by (rule numericReference_no_null)
  next
    case False
    show ?thesis
    proof (cases "longestNamed named s")
      case None
      with assms(2) Cons False show ?thesis
        by (auto simp: characterReference_def str_def split: if_splits)
    next
      case (Some x)
      obtain name tx where x: "x = (name, tx)" by (cases x)
      from longestNamed_in_table [OF Some] assms(1) have "0 \<notin> set tx"
        unfolding x by (auto simp: textsWithoutNull_def list_all_iff)
      with assms(2) Cons False Some x show ?thesis
        by (auto simp: characterReference_def str_def split: if_splits)
    qed
  qed
qed

lemma rcdataText_no_null: "textsWithoutNull named \<Longrightarrow> 0 \<notin> set (rcdataText named s)"
proof (induction named s rule: rcdataText.induct)
  case (1 named)
  show ?case by simp
next
  case (2 named c s)
  obtain out rest where cr: "characterReference named s = (out, rest)" by force
  from characterReference_no_null [OF "2.prems" cr] have "0 \<notin> set out" .
  with 2 cr show ?case by auto
qed

text \<open>
  C6, as the code has it. \<open>sanitizeSasToken\<close> trims once, removes one layer of quotes
  and decodes character references once, so a second application can change the token
  again. It changes nothing when the sanitized token has no white space at its ends, is
  not wrapped in a pair of matching quotes and has no \<^verbatim>\<open>&\<close> that begins a character
  reference; a \<^verbatim>\<open>&\<close> that begins none, as the ones between the parameters of a SAS
  token, may stay. For every such token
  \<open>sanitizeSasToken (sanitizeSasToken t) = sanitizeSasToken t\<close>, in a browser with any
  table of named references whose texts hold no U+0000.
\<close>

theorem sanitizeSasToken_idempotent_without_references:
  assumes "textsWithoutNull named"
    and "trim (sanitizeSasToken (browserTextarea named) t) = sanitizeSasToken (browserTextarea named) t"
    and "\<not> (startsWith (sanitizeSasToken (browserTextarea named) t) [34]
             \<and> endsWith (sanitizeSasToken (browserTextarea named) t) [34])"
    and "\<not> (startsWith (sanitizeSasToken (browserTextarea named) t) [39]
             \<and> endsWith (sanitizeSasToken (browserTextarea named) t) [39])"
    and "noReference named (sanitizeSasToken (browserTextarea named) t)"
  shows "sanitizeSasToken (browserTextarea named) (sanitizeSasToken (browserTextarea named) t)
           = sanitizeSasToken (browserTextarea named) t"
proof -
  define s where "s = sanitizeSasToken (browserTextarea named) t"
  define u where "u = stripQuotes (trim t)"
  define dec where "dec = rcdataText named (normalizeNewlines u)"
  have q: "stripQuotes (trim s) = s"
    using assms(2-4) unfolding s_def [symmetric] by (auto simp: stripQuotes_def)
  have nr: "noReference named s" using assms(5) by (simp add: s_def)
  have again: "sanitizeSasToken (browserTextarea named) s =
      (if s = [] then []
       else if rcdataText named (normalizeNewlines s) \<noteq> []
       then normalizeNewlines (rcdataText named (normalizeNewlines s)) else s)"
    by (simp add: sanitizeSasToken_def browserTextarea_def Let_def q normalizeNewlines_Nil)
  have first: "s = (if t = [] then [] else if dec \<noteq> [] then normalizeNewlines dec else u)"
    by (simp add: s_def sanitizeSasToken_def browserTextarea_def Let_def normalizeNewlines_Nil
        dec_def u_def)
  have "sanitizeSasToken (browserTextarea named) s = s"
  proof (cases "t = [] \<or> dec = []")
    case True
    then show ?thesis
    proof
      assume "t = []"
      with first have "s = []" by simp
      with again show ?thesis by simp
    next
      assume e: "dec = []"
      show ?thesis
      proof (cases "t = []")
        case True
        with first have "s = []" by simp
        with again show ?thesis by simp
      next
        case False
        with first e have "s = u" by simp
        with e again show ?thesis by (simp add: dec_def)
      qed
    qed
  next
    case False
    with first have v: "s = normalizeNewlines dec" by simp
    have "0 \<notin> set dec" unfolding dec_def using assms(1) by (rule rcdataText_no_null)
    then have n0: "0 \<notin> set s" unfolding v by (rule normalizeNewlines_no_null)
    have n13: "13 \<notin> set s" unfolding v by (rule normalizeNewlines_no_CR)
    have "normalizeNewlines s = s" using n13 by (rule normalizeNewlines_plain)
    moreover have "rcdataText named s = s" using nr n0 by (rule rcdataText_unchanged)
    ultimately show ?thesis using again by simp
  qed
  then show ?thesis by (simp add: s_def)
qed

theorem sanitizeSasToken_idempotent_without_references_witness:
  \<open>textsWithoutNull someNamedRefs
   \<and> sanitizeSasToken (browserTextarea someNamedRefs) (str ''"sv=1&amp;sig=x"'') = str ''sv=1&sig=x''
   \<and> trim (str ''sv=1&sig=x'') = str ''sv=1&sig=x''
   \<and> \<not> (startsWith (str ''sv=1&sig=x'') [34] \<and> endsWith (str ''sv=1&sig=x'') [34])
   \<and> \<not> (startsWith (str ''sv=1&sig=x'') [39] \<and> endsWith (str ''sv=1&sig=x'') [39])
   \<and> noReference someNamedRefs (str ''sv=1&sig=x'')
   \<and> sanitizeSasToken (browserTextarea someNamedRefs)
        (sanitizeSasToken (browserTextarea someNamedRefs) (str ''"sv=1&amp;sig=x"''))
      = sanitizeSasToken (browserTextarea someNamedRefs) (str ''"sv=1&amp;sig=x"'')\<close>
proof -
  have v: \<open>sanitizeSasToken (browserTextarea someNamedRefs) (str ''"sv=1&amp;sig=x"'') = str ''sv=1&sig=x''\<close>
    by code_simp
  have h: "textsWithoutNull someNamedRefs"
    "trim (str ''sv=1&sig=x'') = str ''sv=1&sig=x''"
    "\<not> (startsWith (str ''sv=1&sig=x'') [34] \<and> endsWith (str ''sv=1&sig=x'') [34])"
    "\<not> (startsWith (str ''sv=1&sig=x'') [39] \<and> endsWith (str ''sv=1&sig=x'') [39])"
    "noReference someNamedRefs (str ''sv=1&sig=x'')"
    by code_simp+
  from sanitizeSasToken_idempotent_without_references
         [of someNamedRefs \<open>str ''"sv=1&amp;sig=x"''\<close>, unfolded v, OF h]
  show ?thesis using h v by simp
qed

text \<open>Each of the three conditions is needed: the token \<^verbatim>\<open>""abc""\<close> loses one pair of
  quotes at each application, \<^verbatim>\<open>" a "\<close> its quotes and then its spaces, and
  \<^verbatim>\<open>&amp;amp;\<close> one \<^verbatim>\<open>amp;\<close> at each application.\<close>

theorem sanitizeSasToken_not_idempotent:
  \<open>sanitizeSasToken (browserTextarea someNamedRefs) (str ''""abc""'') = str ''"abc"''
   \<and> sanitizeSasToken (browserTextarea someNamedRefs)
        (sanitizeSasToken (browserTextarea someNamedRefs) (str ''""abc""'')) = str ''abc''
   \<and> sanitizeSasToken (browserTextarea someNamedRefs)
        (sanitizeSasToken (browserTextarea someNamedRefs) (str ''""abc""''))
      \<noteq> sanitizeSasToken (browserTextarea someNamedRefs) (str ''""abc""'')
   \<and> sanitizeSasToken (browserTextarea someNamedRefs) (str ''" a "'') = str '' a ''
   \<and> sanitizeSasToken (browserTextarea someNamedRefs)
        (sanitizeSasToken (browserTextarea someNamedRefs) (str ''" a "'')) = str ''a''
   \<and> sanitizeSasToken (browserTextarea someNamedRefs) (str ''&amp;amp;'') = str ''&amp;''
   \<and> sanitizeSasToken (browserTextarea someNamedRefs)
        (sanitizeSasToken (browserTextarea someNamedRefs) (str ''&amp;amp;'')) = str ''&''\<close>
  by code_simp

section \<open>Escaping of the inserted values\<close>

lemma replaceAll_absent: "c \<notin> set s \<Longrightarrow> replaceAll c r s = s"
  by (induction s) (auto simp: replaceAll_def)

lemma escapeHtml_plain: "htmlPlain v \<Longrightarrow> escapeHtml v = v"
  by (simp add: htmlPlain_def escapeHtml_def replaceAll_absent)

lemma replaceAll_Nil: "replaceAll c r [] = []"
  by (simp add: replaceAll_def)

lemma replaceAll_Cons: "replaceAll c r (x # s) = (if x = c then r else [x]) @ replaceAll c r s"
  by (simp add: replaceAll_def)

lemma replaceAll_length: "r \<noteq> [] \<Longrightarrow> length s \<le> length (replaceAll c r s)"
proof (induction s)
  case Nil
  show ?case by (simp add: replaceAll_Nil)
next
  case (Cons x s)
  from Cons.prems have "1 \<le> length r" by (cases r) simp_all
  with Cons show ?case by (simp add: replaceAll_Cons)
qed

lemma replaceAll_same_length:
  "1 < length r \<Longrightarrow> length (replaceAll c r s) = length s \<Longrightarrow> c \<notin> set s"
proof (induction s)
  case Nil
  show ?case by simp
next
  case (Cons x s)
  from Cons.prems(1) have ne: "r \<noteq> []" by auto
  have le: "length s \<le> length (replaceAll c r s)" using ne by (rule replaceAll_length)
  show ?case
  proof (cases "x = c")
    case True
    with Cons.prems le show ?thesis by (simp add: replaceAll_Cons)
  next
    case False
    with Cons.prems have "length (replaceAll c r s) = length s" by (simp add: replaceAll_Cons)
    with Cons.IH Cons.prems(1) False show ?thesis by simp
  qed
qed


lemma escapeHtml_same_length:
  assumes "length (escapeHtml v) = length v"
  shows "htmlPlain v"
proof (cases "v = []")
  case True
  then show ?thesis by (simp add: htmlPlain_def)
next
  case False
  define s1 where "s1 = replaceAll 38 (str ''&amp;'') v"
  define s2 where "s2 = replaceAll 60 (str ''&lt;'') s1"
  define s3 where "s3 = replaceAll 62 (str ''&gt;'') s2"
  define s4 where "s4 = replaceAll 34 (str ''&quot;'') s3"
  define s5 where "s5 = replaceAll 39 (str ''&#039;'') s4"
  have l1: "length v \<le> length s1" unfolding s1_def by (rule replaceAll_length) (simp add: str_def)
  have l2: "length s1 \<le> length s2" unfolding s2_def by (rule replaceAll_length) (simp add: str_def)
  have l3: "length s2 \<le> length s3" unfolding s3_def by (rule replaceAll_length) (simp add: str_def)
  have l4: "length s3 \<le> length s4" unfolding s4_def by (rule replaceAll_length) (simp add: str_def)
  have l5: "length s4 \<le> length s5" unfolding s5_def by (rule replaceAll_length) (simp add: str_def)
  from assms False have "length s5 = length v"
    by (simp add: escapeHtml_def s1_def s2_def s3_def s4_def s5_def)
  with l1 l2 l3 l4 l5 have e: "length s1 = length v" "length s2 = length s1"
    "length s3 = length s2" "length s4 = length s3" "length s5 = length s4"
    by simp_all
  have "38 \<notin> set v"
    using e(1) unfolding s1_def by (rule replaceAll_same_length [rotated]) (simp add: str_def)
  then have v1: "s1 = v" unfolding s1_def by (rule replaceAll_absent)
  have "60 \<notin> set s1"
    using e(2) unfolding s2_def by (rule replaceAll_same_length [rotated]) (simp add: str_def)
  then have v2: "s2 = s1" unfolding s2_def by (rule replaceAll_absent)
  have "62 \<notin> set s2"
    using e(3) unfolding s3_def by (rule replaceAll_same_length [rotated]) (simp add: str_def)
  then have v3: "s3 = s2" unfolding s3_def by (rule replaceAll_absent)
  have "34 \<notin> set s3"
    using e(4) unfolding s4_def by (rule replaceAll_same_length [rotated]) (simp add: str_def)
  then have v4: "s4 = s3" unfolding s4_def by (rule replaceAll_absent)
  have "39 \<notin> set s4"
    using e(5) unfolding s5_def by (rule replaceAll_same_length [rotated]) (simp add: str_def)
  with \<open>34 \<notin> set s3\<close> \<open>62 \<notin> set s2\<close> \<open>60 \<notin> set s1\<close> \<open>38 \<notin> set v\<close> v1 v2 v3 v4
  show ?thesis by (simp add: htmlPlain_def)
qed

lemma escapeHtml_fixed_iff: "escapeHtml v = v \<longleftrightarrow> htmlPlain v"
proof
  assume "escapeHtml v = v"
  then have "length (escapeHtml v) = length v" by simp
  then show "htmlPlain v" by (rule escapeHtml_same_length)
next
  assume "htmlPlain v"
  then show "escapeHtml v = v" by (rule escapeHtml_plain)
qed















section \<open>The round trip\<close>

subsection \<open>Base64: decoding an encoding\<close>

lemma b64val_b64char: "v < 64 \<Longrightarrow> b64val (b64char v) = v"
  by (auto simp: b64val_def b64char_def)

lemma isB64Char_b64char: "v < 64 \<Longrightarrow> isB64Char (b64char v)"
  by (auto simp: isB64Char_def b64char_def)

lemma b64char_not_pad: "v < 64 \<Longrightarrow> b64char v \<noteq> 61"
  by (auto simp: b64char_def)

lemma div_mult_add_less: "y < n \<Longrightarrow> (x * n + y) div n = (x::nat)"
  by simp

lemma mod_mult_add_less: "y < n \<Longrightarrow> (x * n + y) mod n = (y::nat)"
  by simp

lemma sextet_bounds:
  fixes a b c :: nat
  assumes "a < 256" "b < 256" "c < 256"
  shows "a div 4 < 64" "(a mod 4) * 16 + b div 16 < 64" "(b mod 16) * 4 + c div 64 < 64"
    "c mod 64 < 64" "(b mod 16) * 4 < 64" "(a mod 4) * 16 < 64"
proof -
  have "a mod 4 < 4" "b mod 16 < 16" by simp_all
  moreover have "a div 4 < 64" "b div 16 < 16" "c div 64 < 4"
    using assms by (simp_all add: less_mult_imp_div_less)
  ultimately show "a div 4 < 64" "(a mod 4) * 16 + b div 16 < 64"
    "(b mod 16) * 4 + c div 64 < 64" "c mod 64 < 64" "(b mod 16) * 4 < 64" "(a mod 4) * 16 < 64"
    by simp_all
qed

lemma sextets_back:
  fixes a b c :: nat
  assumes "a < 256" "b < 256" "c < 256"
  shows "(a div 4) * 4 + ((a mod 4) * 16 + b div 16) div 16 = a"
    "(((a mod 4) * 16 + b div 16) mod 16) * 16 + ((b mod 16) * 4 + c div 64) div 4 = b"
    "(((b mod 16) * 4 + c div 64) mod 4) * 64 + c mod 64 = c"
    "(((a mod 4) * 16 + b div 16) mod 16) * 16 + ((b mod 16) * 4) div 4 = b"
    "(a div 4) * 4 + ((a mod 4) * 16) div 16 = a"
proof -
  have b16: "b div 16 < 16" and c64: "c div 64 < 4"
    using assms by (simp_all add: less_mult_imp_div_less)
  show "(a div 4) * 4 + ((a mod 4) * 16 + b div 16) div 16 = a"
    by (simp add: div_mult_add_less [OF b16])
  show "(((a mod 4) * 16 + b div 16) mod 16) * 16 + ((b mod 16) * 4 + c div 64) div 4 = b"
    by (simp add: mod_mult_add_less [OF b16] div_mult_add_less [OF c64] mod_less [OF b16])
  show "(((b mod 16) * 4 + c div 64) mod 4) * 64 + c mod 64 = c"
    by (simp add: mod_mult_add_less [OF c64] mod_less [OF c64])
  show "(((a mod 4) * 16 + b div 16) mod 16) * 16 + ((b mod 16) * 4) div 4 = b"
    by (simp add: mod_mult_add_less [OF b16] mod_less [OF b16])
  show "(a div 4) * 4 + ((a mod 4) * 16) div 16 = a"
    by simp
qed

lemma endsWith_append_long:
  "length p \<le> length e \<Longrightarrow> endsWith (pre @ e) p \<longleftrightarrow> endsWith e p"
  by (simp add: endsWith_def)

lemma base64Encode_length_mod: "length (base64Encode bs) mod 4 = 0"
  by (induction bs rule: base64Encode.induct) simp_all

lemma base64Encode_length_ge: "bs \<noteq> [] \<Longrightarrow> 4 \<le> length (base64Encode bs)"
  by (induction bs rule: base64Encode.induct) simp_all

lemma isB64OrPad_b64char: "v < 64 \<Longrightarrow> isB64OrPad (b64char v)"
  by (simp add: isB64OrPad_def isB64Char_b64char)

lemma base64Encode_chars:
  "list_all (\<lambda>b. b < 256) bs \<Longrightarrow> list_all isB64OrPad (base64Encode bs)"
proof (induction bs rule: base64Encode.induct)
  case (1 a b c r)
  then have s: "a < 256" "b < 256" "c < 256" and r: "list_all (\<lambda>b. b < 256) r" by simp_all
  from "1.IH" [OF r] sextet_bounds [OF s] show ?case by (simp add: isB64OrPad_b64char)
next
  case (2 a b)
  then have s: "a < 256" "b < 256" "(0::nat) < 256" by simp_all
  from sextet_bounds [OF s] show ?case by (simp add: isB64OrPad_b64char) (simp add: isB64OrPad_def)
next
  case (3 a)
  then have s: "a < 256" "(0::nat) < 256" "(0::nat) < 256" by simp_all
  from sextet_bounds [OF s] show ?case by (simp add: isB64OrPad_b64char) (simp add: isB64OrPad_def)
next
  case 4
  show ?case by simp
qed

text \<open>After the padding is dropped: only characters of the alphabet, a length that is
  not 1 modulo 4, and sextets that give the bytes back.\<close>

lemma endsWith_Cons_long:
  "length p \<le> length e \<Longrightarrow> endsWith (x # e) p \<longleftrightarrow> endsWith e p"
  using endsWith_append_long [of p e "[x]"] by simp

lemma dropPadding_Cons:
  assumes "2 \<le> length e" "e \<noteq> str ''==''"
  shows "dropPadding (x # e) = x # dropPadding e"
proof -
  have n: "e \<noteq> []" using assms(1) by auto
  have b: "endsWith e (str ''=='') \<Longrightarrow> butlast e \<noteq> []"
  proof
    assume "endsWith e (str ''=='')" "butlast e = []"
    with n have "length e = 1" by (cases e) (auto split: if_splits)
    with assms(1) show False by simp
  qed
  have "endsWith (x # e) p \<longleftrightarrow> endsWith e p" if "length p \<le> 2" for p
    using that assms(1) by (intro endsWith_Cons_long) simp
  from this [of "str ''==''"] this [of "str ''=''"] n b show ?thesis
    by (simp add: dropPadding_def str_def)
qed

lemma dropPadding_quad:
  assumes "x4 \<noteq> 61" "e = [] \<or> 4 \<le> length e"
  shows "dropPadding (x1 # x2 # x3 # x4 # e) = x1 # x2 # x3 # x4 # dropPadding e"
proof (cases "e = []")
  case True
  with assms(1) show ?thesis by (simp add: dropPadding_def endsWith_def str_def)
next
  case False
  with assms(2) have l: "4 \<le> length e" by simp
  then have ne: "e \<noteq> str ''==''" "x4 # e \<noteq> str ''==''" "x3 # x4 # e \<noteq> str ''==''"
    "x2 # x3 # x4 # e \<noteq> str ''==''"
    by (auto simp: str_def)
  from l show ?thesis
    by (simp add: dropPadding_Cons ne)
qed

lemma mod4_Suc4: "Suc (Suc (Suc (Suc n))) mod 4 = n mod 4"
  by presburger

lemma atob_parts:
  assumes "list_all (\<lambda>b. b < 256) bs"
  shows "list_all isB64Char (dropPadding (base64Encode bs))
         \<and> length (dropPadding (base64Encode bs)) mod 4 \<noteq> 1
         \<and> sextets_bytes (map b64val (dropPadding (base64Encode bs))) = bs"
  using assms
proof (induction bs rule: base64Encode.induct)
  case (1 a b c r)
  then have s: "a < 256" "b < 256" "c < 256" and r: "list_all (\<lambda>b. b < 256) r" by simp_all
  have e: "base64Encode r = [] \<or> 4 \<le> length (base64Encode r)"
    using base64Encode_length_ge [of r] by (cases r) simp_all
  have d: "dropPadding (base64Encode (a # b # c # r)) =
             b64char (a div 4) # b64char ((a mod 4) * 16 + b div 16)
             # b64char ((b mod 16) * 4 + c div 64) # b64char (c mod 64)
             # dropPadding (base64Encode r)"
    using e sextet_bounds [OF s] by (simp add: dropPadding_quad b64char_not_pad)
  have v: "b64val (b64char (a div 4)) = a div 4"
    "b64val (b64char ((a mod 4) * 16 + b div 16)) = (a mod 4) * 16 + b div 16"
    "b64val (b64char ((b mod 16) * 4 + c div 64)) = (b mod 16) * 4 + c div 64"
    "b64val (b64char (c mod 64)) = c mod 64"
    using sextet_bounds [OF s] by (simp_all add: b64val_b64char)
  have i: "isB64Char (b64char (a div 4))"
    "isB64Char (b64char ((a mod 4) * 16 + b div 16))"
    "isB64Char (b64char ((b mod 16) * 4 + c div 64))"
    "isB64Char (b64char (c mod 64))"
    using sextet_bounds [OF s] by (simp_all add: isB64Char_b64char)
  from "1.IH" [OF r] show ?case
    unfolding d
    by (simp only: list.pred_inject i v list.map sextets_bytes.simps sextets_back [OF s]
        length_Cons mod4_Suc4 simp_thms)
next
  case (2 a b)
  then have s: "a < 256" "b < 256" "(0::nat) < 256" by simp_all
  have d: "dropPadding (base64Encode [a, b]) =
             [b64char (a div 4), b64char ((a mod 4) * 16 + b div 16), b64char ((b mod 16) * 4)]"
    using b64char_not_pad [OF sextet_bounds(5) [OF s]]
    by (simp add: dropPadding_def endsWith_def str_def)
  show ?case
    unfolding d
    using sextet_bounds [OF s] sextets_back [OF s]
    by (simp add: isB64Char_b64char b64val_b64char)
next
  case (3 a)
  then have s: "a < 256" "(0::nat) < 256" "(0::nat) < 256" by simp_all
  have d: "dropPadding (base64Encode [a]) = [b64char (a div 4), b64char ((a mod 4) * 16)]"
    by (simp add: dropPadding_def endsWith_def str_def)
  show ?case
    unfolding d
    using sextet_bounds [OF s] sextets_back [OF s]
    by (simp add: isB64Char_b64char b64val_b64char)
next
  case 4
  show ?case by (simp add: dropPadding_def endsWith_def str_def)
qed

lemma isB64OrPad_not_space: "isB64OrPad c \<Longrightarrow> \<not> isAsciiWhitespace c"
  by (auto simp: isB64OrPad_def isB64Char_def isAsciiWhitespace_def)

lemma isB64OrPad_not_WhiteSpace: "isB64OrPad c \<Longrightarrow> \<not> isWhiteSpace c"
  by (auto simp: isB64OrPad_def isB64Char_def isWhiteSpace_def)

lemma atob_base64Encode:
  assumes "list_all (\<lambda>b. b < 256) bs"
  shows "atob (base64Encode bs) = Inr bs"
proof -
  have f: "filter (\<lambda>c. \<not> isAsciiWhitespace c) (base64Encode bs) = base64Encode bs"
    using base64Encode_chars [OF assms]
    by (simp add: filter_id_conv list_all_iff isB64OrPad_not_space)
  show ?thesis
    using atob_parts [OF assms]
    by (simp add: atob_def f base64Encode_length_mod Let_def)
qed

lemma dropWhile_rev_all:
  "list_all (\<lambda>c. \<not> P c) s \<Longrightarrow> rev (dropWhile P (rev s)) = s"
  by (cases "rev s") (auto simp: list_all_iff)

lemma trim_no_WhiteSpace: "list_all (\<lambda>c. \<not> isWhiteSpace c) s \<Longrightarrow> trim s = s"
proof -
  assume a: "list_all (\<lambda>c. \<not> isWhiteSpace c) s"
  then have "dropWhile isWhiteSpace s = s" by (cases s) simp_all
  with dropWhile_rev_all [OF a] show ?thesis by (simp add: trim_def)
qed

lemma stripTrailingNonB64_all: "list_all isB64OrPad s \<Longrightarrow> stripTrailingNonB64 s = s"
  unfolding stripTrailingNonB64_def
  using dropWhile_rev_all [of "\<lambda>c. \<not> isB64OrPad c" s] by simp

lemma pad4_id: "length s mod 4 = 0 \<Longrightarrow> pad4 s = s"
  by (simp add: pad4_def)

lemma customBase64Decode_base64Encode:
  assumes "list_all (\<lambda>b. b < 256) bs"
  shows "customBase64Decode (base64Encode bs) = Inr bs"
proof (cases "bs = []")
  case True
  then show ?thesis by (simp add: customBase64Decode.simps)
next
  case False
  then have ne: "base64Encode bs \<noteq> []"
    using base64Encode_length_ge [of bs] by auto
  show ?thesis
    by (subst customBase64Decode.simps)
       (simp add: ne Let_def stripTrailingNonB64_all [OF base64Encode_chars [OF assms]]
          pad4_id [OF base64Encode_length_mod] atob_base64Encode [OF assms])
qed

lemma trim_base64Encode:
  assumes "list_all (\<lambda>b. b < 256) bs"
  shows "trim (base64Encode bs) = base64Encode bs"
proof -
  have "list_all (\<lambda>c. \<not> isWhiteSpace c) (base64Encode bs)"
    using base64Encode_chars [OF assms] by (simp add: list_all_iff isB64OrPad_not_WhiteSpace)
  then show ?thesis by (rule trim_no_WhiteSpace)
qed

lemma knownBadBase64_length: "length knownBadBase64 = 221"
  by (simp add: knownBadBase64_def str_def)

lemma base64Encode_not_knownBad: "base64Encode bs \<noteq> knownBadBase64"
proof
  assume "base64Encode bs = knownBadBase64"
  then have "length (base64Encode bs) mod 4 = 221 mod 4"
    by (simp add: knownBadBase64_length)
  then show False by (simp add: base64Encode_length_mod)
qed

subsection \<open>UTF-8 through escape and decodeURIComponent\<close>

lemma hexDigitVal_hexUpper: "d < 16 \<Longrightarrow> hexDigitVal (hexUpper d) = Some d"
  by (auto simp: hexDigitVal_def hexUpper_def)

lemma parseHexOctet_hexUpper:
  assumes "b < 256"
  shows "parseHexOctet (hexUpper (b div 16)) (hexUpper (b mod 16)) = Some b"
proof -
  have "b div 16 < 16" using assms by (simp add: less_mult_imp_div_less)
  then show ?thesis by (simp add: parseHexOctet_def hexDigitVal_hexUpper)
qed

lemma escapeUnit_high:
  "128 \<le> b \<Longrightarrow> b < 256 \<Longrightarrow> escapeUnit b = [37, hexUpper (b div 16), hexUpper (b mod 16)]"
  by (auto simp: escapeUnit_def isAlnum_def str_def)

lemma escape_Cons: "escape (c # s) = escapeUnit c @ escape s"
  by (simp add: escape_def)

lemma escape_append: "escape (s @ t) = escape s @ escape t"
  by (simp add: escape_def)

lemma continuation_0: "continuation 0 s = Some ([], s)"
  by (simp add: continuation.simps)

lemma continuation_escaped:
  assumes "b < 256" "0 < j"
  shows "continuation j (37 # hexUpper (b div 16) # hexUpper (b mod 16) # s) =
           (case continuation (j - 1) s of None \<Rightarrow> None | Some (os, r) \<Rightarrow> Some (b # os, r))"
  using assms
  by (subst continuation.simps) (simp add: parseHexOctet_hexUpper)

lemma append_single: "(@) [v] = (#) v"
  by auto

lemma decodeURIComponent_escaped_ascii:
  assumes "v < 128"
  shows "decodeURIComponent (escapeUnit v @ rest) = map_sum id ((#) v) (decodeURIComponent rest)"
proof (cases "isAlnum v \<or> v \<in> set (str ''@*_+-./'')")
  case True
  then have n: "v \<noteq> 37" by (auto simp: isAlnum_def str_def)
  have "escapeUnit v = [v]" unfolding escapeUnit_def using True by (rule if_P)
  with n show ?thesis by simp
next
  case False
  have v: "v < 256" using assms by simp
  have l: "leadingOnes v = 0" using assms by (simp add: leadingOnes_def)
  from False assms show ?thesis
    by (simp add: escapeUnit_def decodeEscape_def parseHexOctet_hexUpper [OF v] l append_single)
qed

lemma utf8_two_bytes:
  assumes "128 \<le> v" "v < 2048"
  shows "decodeURIComponent (escape (utf8EncodeCodePoint v) @ rest)
           = map_sum id ((@) (utf16Encode v)) (decodeURIComponent rest)"
proof -
  define b0 where "b0 = 192 + v div 64"
  define b1 where "b1 = 128 + v mod 64"
  have d: "v div 64 < 32" using assms by (simp add: less_mult_imp_div_less)
  have b0: "192 \<le> b0" "b0 < 224" "b0 < 256" "128 \<le> b0" using d by (simp_all add: b0_def)
  have b1: "128 \<le> b1" "b1 < 192" "b1 < 256" by (simp_all add: b1_def)
  have u: "utf8EncodeCodePoint v = [b0, b1]"
    using assms by (simp add: utf8EncodeCodePoint_def b0_def b1_def)
  have l: "leadingOnes b0 = 2" using b0 by (simp add: leadingOnes_def)
  have c: "utf8CodePoint [b0, b1] = Some v"
    using assms by (simp add: b0_def b1_def isCont_def Let_def)
  have e: "escape (utf8EncodeCodePoint v) @ rest
             = 37 # hexUpper (b0 div 16) # hexUpper (b0 mod 16)
               # 37 # hexUpper (b1 div 16) # hexUpper (b1 mod 16) # rest"
    by (simp add: u escape_Cons escapeUnit_high b0 b1 escape_def)
  show ?thesis
    unfolding e
    by (simp add: decodeEscape_def parseHexOctet_hexUpper b0 b1 l
        continuation_escaped continuation_0 c del: utf8CodePoint.simps)
qed

lemma split2: "w div 64 * 4096 + w mod 64 * 64 = w * (64::nat)"
proof -
  have "(w div 64 * 64 + w mod 64) * 64 = w * 64" by simp
  then show ?thesis by (simp only: add_mult_distrib mult.assoc)
qed

lemma split3: "v div 4096 * 4096 + v div 64 mod 64 * 64 + v mod 64 = (v::nat)"
proof -
  have "v div 4096 = v div 64 div 64" by (simp add: div_mult2_eq)
  with split2 [of "v div 64"] show ?thesis by simp
qed

lemma split4:
  "v div 262144 * 262144 + v div 4096 mod 64 * 4096 + v div 64 mod 64 * 64 + v mod 64 = (v::nat)"
proof -
  have d: "v div 262144 = v div 4096 div 64" by (simp add: div_mult2_eq)
  have "(w div 64 * 64 + w mod 64) * 4096 = w * 4096" for w :: nat by simp
  then have "w div 64 * 262144 + w mod 64 * 4096 = w * 4096" for w :: nat
    by (simp only: add_mult_distrib mult.assoc) simp
  from this [of "v div 4096"] d split3 [of v] show ?thesis by simp
qed

lemma utf8_three_bytes:
  assumes "2048 \<le> v" "v < 65536" "\<not> (55296 \<le> v \<and> v \<le> 57343)"
  shows "decodeURIComponent (escape (utf8EncodeCodePoint v) @ rest)
           = map_sum id ((@) (utf16Encode v)) (decodeURIComponent rest)"
proof -
  define b0 where "b0 = 224 + v div 4096"
  define b1 where "b1 = 128 + v div 64 mod 64"
  define b2 where "b2 = 128 + v mod 64"
  have d: "v div 4096 < 16" using assms by (simp add: less_mult_imp_div_less)
  have b0: "224 \<le> b0" "b0 < 240" "b0 < 256" "128 \<le> b0" using d by (simp_all add: b0_def)
  have b1: "128 \<le> b1" "b1 < 192" "b1 < 256" by (simp_all add: b1_def)
  have b2: "128 \<le> b2" "b2 < 192" "b2 < 256" by (simp_all add: b2_def)
  have u: "utf8EncodeCodePoint v = [b0, b1, b2]"
    using assms by (simp add: utf8EncodeCodePoint_def b0_def b1_def b2_def)
  have l: "leadingOnes b0 = 3" using b0 by (simp add: leadingOnes_def)
  have "(b0 - 224) * 4096 + (b1 - 128) * 64 + (b2 - 128) = v"
    using split3 [of v] by (simp add: b0_def b1_def b2_def)
  then have c: "utf8CodePoint [b0, b1, b2] = Some v"
    using assms b1 b2 by (simp add: isCont_def Let_def)
  have e: "escape (utf8EncodeCodePoint v) @ rest
             = 37 # hexUpper (b0 div 16) # hexUpper (b0 mod 16)
               # 37 # hexUpper (b1 div 16) # hexUpper (b1 mod 16)
               # 37 # hexUpper (b2 div 16) # hexUpper (b2 mod 16) # rest"
    by (simp add: u escape_Cons escapeUnit_high b0 b1 b2 escape_def)
  show ?thesis
    unfolding e
    by (simp add: decodeEscape_def parseHexOctet_hexUpper b0 b1 b2 l
        continuation_escaped continuation_0 c del: utf8CodePoint.simps)
qed

lemma utf8_four_bytes:
  assumes "65536 \<le> v" "v \<le> 1114111"
  shows "decodeURIComponent (escape (utf8EncodeCodePoint v) @ rest)
           = map_sum id ((@) (utf16Encode v)) (decodeURIComponent rest)"
proof -
  define b0 where "b0 = 240 + v div 262144"
  define b1 where "b1 = 128 + v div 4096 mod 64"
  define b2 where "b2 = 128 + v div 64 mod 64"
  define b3 where "b3 = 128 + v mod 64"
  have d: "v div 262144 < 8" using assms by (simp add: less_mult_imp_div_less)
  have b0: "240 \<le> b0" "b0 < 248" "b0 < 256" "128 \<le> b0" using d by (simp_all add: b0_def)
  have b1: "128 \<le> b1" "b1 < 192" "b1 < 256" by (simp_all add: b1_def)
  have b2: "128 \<le> b2" "b2 < 192" "b2 < 256" by (simp_all add: b2_def)
  have b3: "128 \<le> b3" "b3 < 192" "b3 < 256" by (simp_all add: b3_def)
  have u: "utf8EncodeCodePoint v = [b0, b1, b2, b3]"
    using assms by (simp add: utf8EncodeCodePoint_def b0_def b1_def b2_def b3_def)
  have l: "leadingOnes b0 = 4" using b0 by (simp add: leadingOnes_def)
  have "(b0 - 240) * 262144 + (b1 - 128) * 4096 + (b2 - 128) * 64 + (b3 - 128) = v"
    using split4 [of v] by (simp add: b0_def b1_def b2_def b3_def)
  then have c: "utf8CodePoint [b0, b1, b2, b3] = Some v"
    using assms b1 b2 b3 by (simp add: isCont_def Let_def)
  have e: "escape (utf8EncodeCodePoint v) @ rest
             = 37 # hexUpper (b0 div 16) # hexUpper (b0 mod 16)
               # 37 # hexUpper (b1 div 16) # hexUpper (b1 mod 16)
               # 37 # hexUpper (b2 div 16) # hexUpper (b2 mod 16)
               # 37 # hexUpper (b3 div 16) # hexUpper (b3 mod 16) # rest"
    by (simp add: u escape_Cons escapeUnit_high b0 b1 b2 b3 escape_def)
  show ?thesis
    unfolding e
    by (simp add: decodeEscape_def parseHexOctet_hexUpper b0 b1 b2 b3 l
        continuation_escaped continuation_0 c del: utf8CodePoint.simps)
qed

lemma utf8_code_point:
  assumes "isScalarValue v"
  shows "decodeURIComponent (escape (utf8EncodeCodePoint v) @ rest)
           = map_sum id ((@) (utf16Encode v)) (decodeURIComponent rest)"
proof -
  consider "v < 128" | "128 \<le> v" "v < 2048" | "2048 \<le> v" "v < 65536" | "65536 \<le> v"
    by linarith
  then show ?thesis
  proof cases
    case 1
    then have "utf8EncodeCodePoint v = [v]" "utf16Encode v = [v]"
      by (simp_all add: utf8EncodeCodePoint_def utf16Encode_def)
    with decodeURIComponent_escaped_ascii [OF 1, of rest] show ?thesis
      by (simp add: escape_def append_single)
  next
    case 2
    then show ?thesis by (rule utf8_two_bytes)
  next
    case 3
    with assms show ?thesis by (intro utf8_three_bytes) (simp_all add: isScalarValue_def)
  next
    case 4
    with assms show ?thesis by (intro utf8_four_bytes) (simp_all add: isScalarValue_def)
  qed
qed

lemma map_sum_Inr_append:
  "x = Inr r \<Longrightarrow> map_sum id ((@) u) x = Inr (u @ r)"
  by simp

lemma decodeURIComponent_utf8:
  assumes "list_all isScalarValue u"
  shows "decodeURIComponent (escape (utf8 u)) = Inr (utf16 u)"
  using assms
proof (induction u)
  case Nil
  show ?case by (simp add: utf8_def utf16_def escape_def)
next
  case (Cons v u)
  then have v: "isScalarValue v" and ih: "decodeURIComponent (escape (utf8 u)) = Inr (utf16 u)"
    by simp_all
  have "escape (utf8 (v # u)) = escape (utf8EncodeCodePoint v) @ escape (utf8 u)"
    by (simp add: utf8_def escape_append)
  with utf8_code_point [OF v, of "escape (utf8 u)"] ih show ?case
    by (simp add: utf16_def)
qed

lemma utf8EncodeCodePoint_bytes:
  "isScalarValue v \<Longrightarrow> list_all (\<lambda>b. b < 256) (utf8EncodeCodePoint v)"
proof -
  assume "isScalarValue v"
  then have "v div 262144 < 8" by (simp add: isScalarValue_def less_mult_imp_div_less)
  moreover have "v < 2048 \<Longrightarrow> v div 64 < 32" "v < 65536 \<Longrightarrow> v div 4096 < 16"
    by (simp_all add: less_mult_imp_div_less)
  ultimately show ?thesis
    by (auto simp: utf8EncodeCodePoint_def)
qed

lemma utf8_bytes: "list_all isScalarValue u \<Longrightarrow> list_all (\<lambda>b. b < 256) (utf8 u)"
  by (induction u) (simp_all add: utf8_def utf8EncodeCodePoint_bytes)

subsection \<open>The cut after .pdf\<close>

lemma lowerUnit_cases:
  "lowerUnit c = [c] \<and> \<not> (65 \<le> c \<and> c \<le> 90) \<and> c \<noteq> 304 \<and> c \<noteq> 8490
   \<or> lowerUnit c = [c + 32] \<and> 65 \<le> c \<and> c \<le> 90
   \<or> lowerUnit c = [105, 775] \<and> c = 304
   \<or> lowerUnit c = [107] \<and> c = 8490"
  by (auto simp: lowerUnit_def)

lemma toLowerCase_Cons: "toLowerCase (c # s) = lowerUnit c @ toLowerCase s"
  by (simp add: toLowerCase_def)

text \<open>A lower-case text that starts with \<^verbatim>\<open>pdf\<close> comes from a text that starts
  with it in some letter case.\<close>

lemma lower_letter:
  assumes "startsWith (toLowerCase s) (l # lit)" "l \<in> {112, 100, 102}"
  obtains c r where "s = c # r" "ciChar l c" "startsWith (toLowerCase r) lit"
proof (cases s)
  case Nil
  with assms(1) show ?thesis by (simp add: startsWith_def toLowerCase_def)
next
  case (Cons c r)
  from assms lowerUnit_cases [of c] have "ciChar l c \<and> startsWith (toLowerCase r) lit"
    unfolding Cons toLowerCase_Cons
    by (auto simp: startsWith_def ciChar_def)
  with Cons that show ?thesis by blast
qed

lemma lower_pdf:
  assumes "startsWith (toLowerCase s) (str ''pdf'')"
  shows "ciStartsWith s (str ''pdf'')"
proof -
  have a: "startsWith (toLowerCase s) [112, 100, 102]" using assms by (simp add: str_def)
  from a obtain c1 r1 where 1: "s = c1 # r1" "ciChar 112 c1" "startsWith (toLowerCase r1) [100, 102]"
    by (rule lower_letter) simp
  from 1(3) obtain c2 r2 where 2: "r1 = c2 # r2" "ciChar 100 c2" "startsWith (toLowerCase r2) [102]"
    by (rule lower_letter) simp
  from 2(3) obtain c3 r3 where 3: "r2 = c3 # r3" "ciChar 102 c3"
    by (rule lower_letter) simp
  from 1 2 3 show ?thesis by (simp add: str_def)
qed

lemma indexOf_lower_step:
  assumes "\<not> ciStartsWith (c # s) (str ''.pdf'')"
  shows "indexOf (toLowerCase (c # s)) (str ''.pdf'')
           = map_option (\<lambda>k. k + length (lowerUnit c)) (indexOf (toLowerCase s) (str ''.pdf''))"
proof -
  have n: "\<not> startsWith (lowerUnit c @ toLowerCase s) (str ''.pdf'')"
  proof
    assume a: "startsWith (lowerUnit c @ toLowerCase s) (str ''.pdf'')"
    with lowerUnit_cases [of c] have c: "c = 46" and "lowerUnit c = [46]"
      by (auto simp: startsWith_def str_def)
    with a have "startsWith (toLowerCase s) (str ''pdf'')"
      by (simp add: startsWith_def str_def)
    then have "ciStartsWith s (str ''pdf'')" by (rule lower_pdf)
    with c assms show False by (simp add: str_def ciChar_def)
  qed
  from lowerUnit_cases [of c] show ?thesis
  proof (elim disjE conjE)
    assume l: "lowerUnit c = [105, 775]"
    have "\<not> startsWith (775 # toLowerCase s) (str ''.pdf'')"
      by (simp add: startsWith_def str_def)
    with n l show ?thesis
      by (simp add: toLowerCase_Cons option.map_comp comp_def)
  qed (use n in \<open>simp_all add: toLowerCase_Cons\<close>)
qed

lemma cut_after_pdf:
  "pdfOnlyAtEnd s \<Longrightarrow> indexOf (toLowerCase s) (str ''.pdf'') = Some i \<Longrightarrow> length s \<le> i + 4"
proof (induction s arbitrary: i)
  case Nil
  then show ?case by (simp add: toLowerCase_def str_def)
next
  case (Cons c s)
  show ?case
  proof (cases "ciStartsWith (c # s) (str ''.pdf'')")
    case True
    with Cons.prems(1) show ?thesis by simp
  next
    case False
    from Cons.prems(2) indexOf_lower_step [OF False]
    obtain k where k: "indexOf (toLowerCase s) (str ''.pdf'') = Some k"
      and i: "i = k + length (lowerUnit c)"
      by auto
    from Cons.prems(1) have "pdfOnlyAtEnd s" by simp
    from Cons.IH [OF this k] i lowerUnit_cases [of c] show ?thesis by auto
  qed
qed

lemma cleanMatch_whole: "pdfOnlyAtEnd s \<Longrightarrow> cleanMatch s = s"
  by (auto simp: cleanMatch_def split: option.splits dest: cut_after_pdf)

subsection \<open>From code points to code units\<close>

lemma utf16_Cons: "utf16 (v # u) = utf16Encode v @ utf16 u"
  by (simp add: utf16_def)

lemma utf16_append: "utf16 (u @ w) = utf16 u @ utf16 w"
  by (simp add: utf16_def)

lemma utf8_append: "utf8 (u @ w) = utf8 u @ utf8 w"
  by (simp add: utf8_def)

lemma utf16_ascii: "list_all (\<lambda>c. c < 128) u \<Longrightarrow> utf16 u = u"
  by (induction u) (simp_all add: utf16_def utf16Encode_def)

lemma utf8_ascii: "list_all (\<lambda>c. c < 128) u \<Longrightarrow> utf8 u = u"
  by (induction u) (simp_all add: utf8_def utf8EncodeCodePoint_def)

lemma utf16Encode_cases:
  "utf16Encode v = [v] \<and> v \<le> 65535
   \<or> (\<exists>hi lo. utf16Encode v = [hi, lo] \<and> 55296 \<le> hi \<and> 55296 \<le> lo)"
  by (simp add: utf16Encode_def)

lemma ciChar_ascii: "ciChar p c \<Longrightarrow> p < 128 \<Longrightarrow> c < 128"
  by (auto simp: ciChar_def)

text \<open>A text of code points that starts with \<^verbatim>\<open>.pdf\<close>, in any letter case, and its
  UTF-16 form.\<close>

lemma ciStartsWith_utf16:
  assumes "list_all (\<lambda>p. p < 128) lit"
  shows "ciStartsWith (utf16 u) lit \<longleftrightarrow> ciStartsWith u lit"
  using assms
proof (induction u lit rule: ciStartsWith.induct)
  case (1 s)
  show ?case by simp
next
  case (2 p ps)
  show ?case by (simp add: utf16_def)
next
  case (3 c s p ps)
  then have p: "p < 128" and ps: "list_all (\<lambda>p. p < 128) ps" by simp_all
  from utf16Encode_cases [of c] show ?case
  proof (elim disjE conjE exE)
    assume "utf16Encode c = [c]"
    with "3.IH" [OF ps] show ?thesis by (simp add: utf16_Cons)
  next
    fix hi lo
    assume e: "utf16Encode c = [hi, lo]" and hi: "55296 \<le> hi"
    have "\<not> ciChar p hi" using ciChar_ascii [OF _ p, of hi] hi by auto
    moreover have "\<not> ciChar p c"
    proof
      assume "ciChar p c"
      then have "c < 128" using p by (rule ciChar_ascii)
      then have "utf16Encode c = [c]" by (simp add: utf16Encode_def)
      with e show False by simp
    qed
    ultimately show ?thesis by (simp add: utf16_Cons e)
  qed
qed

lemma ciStartsWith_length: "ciStartsWith s lit \<Longrightarrow> length lit \<le> length s"
  by (induction s lit rule: ciStartsWith.induct) simp_all

lemma ciStartsWith_prefix_ascii:
  "ciStartsWith s lit \<Longrightarrow> list_all (\<lambda>p. p < 128) lit \<Longrightarrow> list_all (\<lambda>c. c < 128) (take (length lit) s)"
  by (induction s lit rule: ciStartsWith.induct) (auto dest: ciChar_ascii)

lemma pdfOnlyAtEnd_utf16: "pdfOnlyAtEnd u \<Longrightarrow> pdfOnlyAtEnd (utf16 u)"
proof (induction u)
  case Nil
  show ?case by (simp add: utf16_def)
next
  case (Cons v u)
  then have ih: "pdfOnlyAtEnd (utf16 u)" by simp
  have lit: "list_all (\<lambda>p. p < 128) (str ''.pdf'')" by (simp add: str_def)
  from utf16Encode_cases [of v] show ?case
  proof (elim disjE conjE exE)
    assume e: "utf16Encode v = [v]"
    have "length (utf16 u) = 3" if c: "ciStartsWith (v # utf16 u) (str ''.pdf'')"
    proof -
      from c have c': "ciStartsWith (v # u) (str ''.pdf'')"
        using ciStartsWith_utf16 [OF lit, of "v # u"] by (simp add: utf16_Cons e)
      with Cons.prems have l: "length u = 3" by simp
      from ciStartsWith_prefix_ascii [OF c' lit] l have "list_all (\<lambda>c. c < 128) u"
        by (simp add: str_def)
      with l show ?thesis by (simp add: utf16_ascii)
    qed
    with ih show ?thesis by (simp add: utf16_Cons e)
  next
    fix hi lo
    assume e: "utf16Encode v = [hi, lo]" and h: "55296 \<le> hi" "55296 \<le> lo"
    have "\<not> ciChar 46 hi" "\<not> ciChar 46 lo" using h by (auto simp: ciChar_def)
    with ih show ?thesis by (simp add: utf16_Cons e str_def)
  qed
qed

lemma no_line_terminator_utf16:
  "\<not> list_ex isLineTerminator u \<Longrightarrow> \<not> list_ex isLineTerminator (utf16 u)"
proof (induction u)
  case Nil
  show ?case by (simp add: utf16_def)
next
  case (Cons v u)
  from utf16Encode_cases [of v] Cons show ?case
    by (auto simp: utf16_Cons isLineTerminator_def)
qed

subsection \<open>The match on a whole URL\<close>

lemma restOfLine_whole: "\<not> list_ex isLineTerminator s \<Longrightarrow> restOfLine s = s"
  by (simp add: restOfLine_def list_ex_iff takeWhile_eq_all_conv)

lemma extHere_not_Nil: "extHere s \<Longrightarrow> s \<noteq> []"
  by (auto simp: extHere_def str_def)

lemma lazyToExt_whole:
  assumes "\<not> list_ex isLineTerminator (pre @ post)" "extHere post"
  shows "lazyToExt (pre @ post) = Some (pre @ post)"
  using assms
proof (induction pre)
  case Nil
  then obtain c s where p: "post = c # s" using extHere_not_Nil by (cases post) auto
  from Nil have "\<not> list_ex isLineTerminator (drop 4 post)"
    by (auto simp: list_ex_iff dest: in_set_dropD)
  then have "restOfLine (drop 4 post) = drop 4 post" by (rule restOfLine_whole)
  with Nil(2) show ?case unfolding p by simp
next
  case (Cons a pre)
  from Cons.prems have ih: "lazyToExt (pre @ post) = Some (pre @ post)"
    and a: "\<not> isLineTerminator a"
    by (simp_all add: Cons.IH)
  from Cons.prems have "\<not> list_ex isLineTerminator (drop 4 (a # pre @ post))"
    by (auto simp: list_ex_iff dest: in_set_dropD)
  then have r: "restOfLine (drop 4 (a # pre @ post)) = drop 4 (a # pre @ post)"
    by (rule restOfLine_whole)
  show ?case
  proof (cases "extHere (a # pre @ post)")
    case True
    have "take 4 (a # pre @ post) @ drop 4 (a # pre @ post) = a # pre @ post"
      by (rule append_take_drop_id)
    with True r show ?thesis by (simp del: append_take_drop_id)
  next
    case False
    with a ih show ?thesis by simp
  qed
qed

lemma startsWithD: "startsWith u p \<Longrightarrow> \<exists>w. u = p @ w"
  unfolding startsWith_def by (metis append_take_drop_id)

lemma endsWithD: "endsWith u p \<Longrightarrow> \<exists>w. u = w @ p"
  unfolding endsWith_def by (metis append_take_drop_id)

text \<open>The extension at the end of a URL lies after its scheme, which has no dot.\<close>

lemma extension_after_scheme:
  assumes "scheme @ w = x @ ext" "ext \<noteq> []" "hd ext \<notin> set scheme"
  shows "\<exists>w'. w = w' @ ext"
proof -
  from assms(1) obtain us where
    "(scheme = x @ us \<and> us @ w = ext) \<or> (scheme @ us = x \<and> w = us @ ext)"
    by (auto simp: append_eq_append_conv2)
  then show ?thesis
  proof (elim disjE conjE)
    assume s: "scheme = x @ us" and e: "us @ w = ext"
    show ?thesis
    proof (cases us)
      case Nil
      with e show ?thesis by simp
    next
      case (Cons a r)
      with e have "hd ext = a" by auto
      with s Cons assms(3) show ?thesis by simp
    qed
  next
    assume "w = us @ ext"
    then show ?thesis by blast
  qed
qed

lemma matchUrl_of_matchAt: "matchAt s = Some m \<Longrightarrow> matchUrl s = Some m"
  by (cases s) (simp_all add: matchAt_def schemeLength_def str_def)

lemma matchAt_scheme:
  assumes "scheme = str ''http://'' \<or> scheme = str ''https://''"
    and "lazyToExt rest = Some rest"
  shows "matchAt (scheme @ rest) = Some (scheme @ rest)"
  using assms by (auto simp: matchAt_def schemeLength_def str_def ciChar_def)

lemma extHere_ext:
  "ext = str ''.pdf'' \<or> ext = str ''.txt'' \<or> ext = str ''.csv'' \<Longrightarrow> extHere ext"
  by (auto simp: extHere_def str_def ciChar_def)

lemma includes_http:
  assumes "scheme = str ''http://'' \<or> scheme = str ''https://''"
  shows "includes_str (scheme @ rest) (str ''http'')"
  using assms by (auto simp: str_def startsWith_def)

text \<open>The shape of a URL that satisfies the hypotheses of the round trip.\<close>

lemma url_shape:
  assumes "startsWith u (str ''http://'') \<or> startsWith u (str ''https://'')"
    and "endsWith u (str ''.pdf'') \<or> endsWith u (str ''.txt'') \<or> endsWith u (str ''.csv'')"
  obtains scheme w ext where "u = scheme @ w @ ext"
    "scheme = str ''http://'' \<or> scheme = str ''https://''"
    "ext = str ''.pdf'' \<or> ext = str ''.txt'' \<or> ext = str ''.csv''"
proof -
  from assms(1) obtain scheme w0 where s: "u = scheme @ w0"
    "scheme = str ''http://'' \<or> scheme = str ''https://''"
    by (auto dest: startsWithD)
  from assms(2) obtain x ext where e: "u = x @ ext"
    "ext = str ''.pdf'' \<or> ext = str ''.txt'' \<or> ext = str ''.csv''"
    by (auto dest: endsWithD)
  have "ext \<noteq> []" "hd ext \<notin> set scheme"
    using s(2) e(2) by (auto simp: str_def)
  with extension_after_scheme [of scheme w0 x ext] s(1) e(1)
  obtain w where "w0 = w @ ext" by auto
  with s e(2) that show ?thesis by blast
qed

lemma ascii_literals:
  assumes "lit \<in> {str ''http://'', str ''https://'', str ''.pdf'', str ''.txt'', str ''.csv''}"
  shows "utf16 lit = lit" "utf8 lit = lit"
proof -
  from assms have "list_all (\<lambda>c. c < 128) lit" by (auto simp: str_def)
  then show "utf16 lit = lit" "utf8 lit = lit" by (simp_all add: utf16_ascii utf8_ascii)
qed

text \<open>
  C4, as the code has it. Let \<open>u\<close> be a text of Unicode scalar values that starts with
  \<^verbatim>\<open>http://\<close> or \<^verbatim>\<open>https://\<close>, ends in \<^verbatim>\<open>.pdf\<close>, \<^verbatim>\<open>.txt\<close> or \<^verbatim>\<open>.csv\<close>, contains
  no line terminator, and contains \<^verbatim>\<open>.pdf\<close> (in any letter case) nowhere but at its end.
  Then \<open>decodeAndCleanUrl\<close>, applied to the standard Base64 encoding of the UTF-8 form
  of \<open>u\<close>, returns that UTF-8 form as \<open>raw\<close> and the string \<open>u\<close> as \<open>cleaned\<close>.
  Without the last condition the cut after the first \<^verbatim>\<open>.pdf\<close> shortens the URL.
\<close>

theorem round_trip:
  assumes "list_all isScalarValue u"
    and "startsWith u (str ''http://'') \<or> startsWith u (str ''https://'')"
    and "endsWith u (str ''.pdf'') \<or> endsWith u (str ''.txt'') \<or> endsWith u (str ''.csv'')"
    and "\<not> list_ex isLineTerminator u"
    and "pdfOnlyAtEnd u"
  shows "decodeAndCleanUrl (JStr (base64Encode (utf8 u)))
           = Inr \<lparr>raw = Some (utf8 u), cleaned = Some (utf16 u)\<rparr>"
proof -
  from assms(2,3) obtain scheme w ext where u: "u = scheme @ w @ ext"
    and scheme: "scheme = str ''http://'' \<or> scheme = str ''https://''"
    and ext: "ext = str ''.pdf'' \<or> ext = str ''.txt'' \<or> ext = str ''.csv''"
    by (rule url_shape)
  have s16: "utf16 scheme = scheme" and s8: "utf8 scheme = scheme"
    using scheme ascii_literals [of scheme] by auto
  have e16: "utf16 ext = ext" using ext ascii_literals [of ext] by auto
  have u16: "utf16 u = scheme @ utf16 w @ ext"
    by (simp add: u utf16_append s16 e16)
  have u8: "utf8 u = scheme @ utf8 (w @ ext)"
    by (simp add: u utf8_append s8)
  define b64 where "b64 = base64Encode (utf8 u)"
  have bytes: "list_all (\<lambda>b. b < 256) (utf8 u)" using assms(1) by (rule utf8_bytes)
  have "utf8 u \<noteq> []" using u8 scheme by (auto simp: str_def)
  then have ne: "b64 \<noteq> []" using base64Encode_length_ge [of "utf8 u"] by (auto simp: b64_def)
  have nb: "b64 \<noteq> knownBadBase64" unfolding b64_def by (rule base64Encode_not_knownBad)
  have tr: "trim b64 = b64" unfolding b64_def using bytes by (rule trim_base64Encode)
  have dec: "customBase64Decode b64 = Inr (utf8 u)"
    unfolding b64_def using bytes by (rule customBase64Decode_base64Encode)
  have inc: "includes_str (utf8 u) (str ''http'')"
    unfolding u8 using scheme by (rule includes_http)
  have retry: "decodeWithRetry (JStr b64) = Inr (utf8 u)"
    by (simp add: decodeWithRetry.simps tr dec inc)
  have uri: "decodeURIComponent (escape (utf8 u)) = Inr (utf16 u)"
    using assms(1) by (rule decodeURIComponent_utf8)
  have nolt: "\<not> list_ex isLineTerminator (utf16 u)"
    using assms(4) by (rule no_line_terminator_utf16)
  then have "\<not> list_ex isLineTerminator (utf16 w @ ext)" by (simp add: u16)
  then have "lazyToExt (utf16 w @ ext) = Some (utf16 w @ ext)"
    using extHere_ext [OF ext] by (rule lazyToExt_whole)
  with scheme have "matchAt (scheme @ utf16 w @ ext) = Some (scheme @ utf16 w @ ext)"
    by (rule matchAt_scheme)
  then have m: "matchUrl (utf16 u) = Some (utf16 u)"
    unfolding u16 by (rule matchUrl_of_matchAt)
  have c: "cleanMatch (utf16 u) = utf16 u"
    using pdfOnlyAtEnd_utf16 [OF assms(5)] by (rule cleanMatch_whole)
  show ?thesis
    unfolding b64_def [symmetric]
    by (simp add: decodeAndCleanUrl_def ne nb retry uri m c)
qed

theorem round_trip_witness:
  "list_all isScalarValue (str ''https://x/'' @ [233] @ str ''.txt'')
   \<and> (startsWith (str ''https://x/'' @ [233] @ str ''.txt'') (str ''http://'')
        \<or> startsWith (str ''https://x/'' @ [233] @ str ''.txt'') (str ''https://''))
   \<and> (endsWith (str ''https://x/'' @ [233] @ str ''.txt'') (str ''.pdf'')
        \<or> endsWith (str ''https://x/'' @ [233] @ str ''.txt'') (str ''.txt'')
        \<or> endsWith (str ''https://x/'' @ [233] @ str ''.txt'') (str ''.csv''))
   \<and> \<not> list_ex isLineTerminator (str ''https://x/'' @ [233] @ str ''.txt'')
   \<and> pdfOnlyAtEnd (str ''https://x/'' @ [233] @ str ''.txt'')
   \<and> base64Encode (utf8 (str ''https://x/'' @ [233] @ str ''.txt'')) = str ''aHR0cHM6Ly94L8OpLnR4dA==''
   \<and> decodeAndCleanUrl (JStr (str ''aHR0cHM6Ly94L8OpLnR4dA==''))
       = Inr \<lparr>raw = Some (str ''https://x/'' @ [195, 169] @ str ''.txt''),
              cleaned = Some (str ''https://x/'' @ [233] @ str ''.txt'')\<rparr>"
proof -
  have h: "list_all isScalarValue (str ''https://x/'' @ [233] @ str ''.txt'')"
    "startsWith (str ''https://x/'' @ [233] @ str ''.txt'') (str ''http://'')
        \<or> startsWith (str ''https://x/'' @ [233] @ str ''.txt'') (str ''https://'')"
    "endsWith (str ''https://x/'' @ [233] @ str ''.txt'') (str ''.pdf'')
        \<or> endsWith (str ''https://x/'' @ [233] @ str ''.txt'') (str ''.txt'')
        \<or> endsWith (str ''https://x/'' @ [233] @ str ''.txt'') (str ''.csv'')"
    "\<not> list_ex isLineTerminator (str ''https://x/'' @ [233] @ str ''.txt'')"
    "pdfOnlyAtEnd (str ''https://x/'' @ [233] @ str ''.txt'')"
    by code_simp+
  have e: "base64Encode (utf8 (str ''https://x/'' @ [233] @ str ''.txt'')) = str ''aHR0cHM6Ly94L8OpLnR4dA==''"
    "utf8 (str ''https://x/'' @ [233] @ str ''.txt'') = str ''https://x/'' @ [195, 169] @ str ''.txt''"
    "utf16 (str ''https://x/'' @ [233] @ str ''.txt'') = str ''https://x/'' @ [233] @ str ''.txt''"
    by code_simp+
  from round_trip [OF h] h e show ?thesis by simp
qed

text \<open>The URL \<^verbatim>\<open>https://x/a.pdf/b.pdf\<close> comes back as \<^verbatim>\<open>https://x/a.pdf\<close>.\<close>

theorem round_trip_counterexample:
  "list_all isScalarValue (str ''https://x/a.pdf/b.pdf'')
   \<and> startsWith (str ''https://x/a.pdf/b.pdf'') (str ''https://'')
   \<and> endsWith (str ''https://x/a.pdf/b.pdf'') (str ''.pdf'')
   \<and> base64Encode (utf8 (str ''https://x/a.pdf/b.pdf'')) = str ''aHR0cHM6Ly94L2EucGRmL2IucGRm''
   \<and> decodeAndCleanUrl (JStr (str ''aHR0cHM6Ly94L2EucGRmL2IucGRm''))
       = Inr \<lparr>raw = Some (str ''https://x/a.pdf/b.pdf''),
              cleaned = Some (str ''https://x/a.pdf'')\<rparr>
   \<and> str ''https://x/a.pdf'' \<noteq> utf16 (str ''https://x/a.pdf/b.pdf'')"
  by code_simp

section \<open>What decodeAndCleanUrl guarantees of the cleaned URL\<close>

lemma ciStartsWith_take:
  "ciStartsWith m lit \<Longrightarrow> length lit \<le> k \<Longrightarrow> ciStartsWith (take k m) lit"
proof (induction m lit arbitrary: k rule: ciStartsWith.induct)
  case (3 c s p ps)
  then obtain k' where "k = Suc k'" by (cases k) auto
  with 3 show ?case by simp
qed simp_all

lemma ciStartsWith_append:
  "ciStartsWith m lit \<Longrightarrow> ciStartsWith (m @ e) lit"
  by (induction m lit rule: ciStartsWith.induct) simp_all

text \<open>In the lower-case form of a text that starts with a scheme, \<^verbatim>\<open>.pdf\<close> is found
  after the scheme only.\<close>

lemma pdf_after_prefix:
  assumes "ciStartsWith m lit" "46 \<notin> set lit" "list_all (\<lambda>p. p < 128) lit"
    and "indexOf (toLowerCase m) (str ''.pdf'') = Some i"
  shows "length lit \<le> i"
  using assms
proof (induction m lit arbitrary: i rule: ciStartsWith.induct)
  case (3 c s p ps)
  then have p: "ciChar p c" "p \<noteq> 46" "p < 128"
    and ih: "ciStartsWith s ps" "46 \<notin> set ps" "list_all (\<lambda>p. p < 128) ps" by auto
  from p have "\<not> ciChar 46 c" by (auto simp: ciChar_def)
  then have n: "\<not> ciStartsWith (c # s) (str ''.pdf'')" by (simp add: str_def)
  from p have l: "length (lowerUnit c) = 1" by (auto simp: ciChar_def lowerUnit_def)
  from "3.prems"(4) indexOf_lower_step [OF n] l
  obtain k where k: "indexOf (toLowerCase s) (str ''.pdf'') = Some k" and i: "i = Suc k"
    by auto
  from "3.IH" [OF ih k] i show ?case by simp
qed simp_all

lemma cleanMatch_keeps_prefix:
  assumes "ciStartsWith m lit" "46 \<notin> set lit" "list_all (\<lambda>p. p < 128) lit"
  shows "ciStartsWith (cleanMatch m) lit"
proof (cases "indexOf (toLowerCase m) (str ''.pdf'')")
  case None
  with assms(1) show ?thesis by (simp add: cleanMatch_def)
next
  case (Some i)
  from pdf_after_prefix [OF assms Some] have "length lit \<le> i + 4" by simp
  with assms(1) Some show ?thesis by (simp add: cleanMatch_def ciStartsWith_take)
qed

lemma matchAt_scheme_kept:
  assumes "matchAt s = Some m"
  shows "ciStartsWith m (str ''http://'') \<or> ciStartsWith m (str ''https://'')"
proof -
  from assms obtain n e where n: "schemeLength s = Some n" and m: "m = take n s @ e"
    by (auto simp: matchAt_def split: option.splits)
  from n have "(n = 8 \<and> ciStartsWith s (str ''https://'')) \<or> (n = 7 \<and> ciStartsWith s (str ''http://''))"
    by (auto simp: schemeLength_def split: if_splits)
  then show ?thesis
  proof (elim disjE conjE)
    assume "n = 8" "ciStartsWith s (str ''https://'')"
    then have "ciStartsWith (take n s) (str ''https://'')"
      by (intro ciStartsWith_take) (simp_all add: str_def)
    then show ?thesis unfolding m by (simp add: ciStartsWith_append)
  next
    assume "n = 7" "ciStartsWith s (str ''http://'')"
    then have "ciStartsWith (take n s) (str ''http://'')"
      by (intro ciStartsWith_take) (simp_all add: str_def)
    then show ?thesis unfolding m by (simp add: ciStartsWith_append)
  qed
qed

lemma matchUrl_scheme_kept:
  "matchUrl s = Some m \<Longrightarrow> ciStartsWith m (str ''http://'') \<or> ciStartsWith m (str ''https://'')"
  by (induction s) (auto split: option.splits dest: matchAt_scheme_kept)

lemma cleaned_starts_with_scheme:
  assumes "decodeAndCleanUrl b64 = Inr d" "cleaned d = Some c"
  shows "ciStartsWith c (str ''http://'') \<or> ciStartsWith c (str ''https://'')"
proof (cases "b64 = JStr knownBadBase64")
  case True
  have "ciStartsWith knownBadUrl (str ''https://'')" by code_simp
  with True assms show ?thesis
    by (auto simp: decodeAndCleanUrl_def split: if_splits)
next
  case False
  with assms obtain decoded m where "matchUrl decoded = Some m" and c: "c = cleanMatch m"
    by (auto simp: decodeAndCleanUrl_def Let_def split: if_splits sum.splits)
  then have "ciStartsWith m (str ''http://'') \<or> ciStartsWith m (str ''https://'')"
    by (auto dest: matchUrl_scheme_kept)
  then show ?thesis
    unfolding c by (auto intro: cleanMatch_keeps_prefix simp: str_def)
qed

lemma indexOf_at_start: "startsWith s p \<Longrightarrow> indexOf s p = Some 0"
  by (cases s) (simp_all add: startsWith_def)

lemma lower_of_ci:
  assumes "ciStartsWith s lit" "\<forall>l\<in>set lit. \<not> (65 \<le> l \<and> l \<le> 90) \<and> l \<noteq> 304 \<and> l \<noteq> 8490"
  shows "startsWith (toLowerCase s) lit"
  using assms
proof (induction s lit rule: ciStartsWith.induct)
  case (1 s)
  show ?case by (simp add: startsWith_def)
next
  case (2 p ps)
  then show ?case by simp
next
  case (3 c s p ps)
  then have "lowerUnit c = [p]" by (auto simp: ciChar_def lowerUnit_def)
  moreover from 3 have "startsWith (toLowerCase s) ps" by simp
  ultimately show ?case by (simp add: toLowerCase_Cons startsWith_def)
qed

text \<open>Where \<^verbatim>\<open>.pdf\<close> is found and no U+0130 precedes it, the result of the cut ends
  with \<^verbatim>\<open>.pdf\<close>, in some letter case.\<close>

lemma pdf_index_in_text:
  assumes "indexOf (toLowerCase m) (str ''.pdf'') = Some i" "304 \<notin> set m"
  shows "i + 4 \<le> length m \<and> ciStartsWith (drop i m) (str ''.pdf'')"
  using assms
proof (induction m arbitrary: i)
  case Nil
  then show ?case by (simp add: toLowerCase_def str_def)
next
  case (Cons c m)
  show ?case
  proof (cases "ciStartsWith (c # m) (str ''.pdf'')")
    case True
    then have "startsWith (toLowerCase (c # m)) (str ''.pdf'')"
      by (rule lower_of_ci) (simp add: str_def)
    from indexOf_at_start [OF this] Cons.prems(1) have "i = 0" by simp
    with True ciStartsWith_length [OF True] show ?thesis by (simp add: str_def)
  next
    case False
    from Cons.prems(2) have "length (lowerUnit c) = 1" by (auto simp: lowerUnit_def)
    with Cons.prems(1) indexOf_lower_step [OF False]
    obtain k where k: "indexOf (toLowerCase m) (str ''.pdf'') = Some k" and i: "i = Suc k"
      by auto
    from Cons.prems(2) have "304 \<notin> set m" by simp
    from Cons.IH [OF k this] i show ?thesis by simp
  qed
qed

lemma cut_ends_with_pdf:
  assumes "indexOf (toLowerCase m) (str ''.pdf'') = Some i" "304 \<notin> set m"
  shows "length (cleanMatch m) = i + 4 \<and> ciStartsWith (drop i (cleanMatch m)) (str ''.pdf'')"
proof -
  from pdf_index_in_text [OF assms] have l: "i + 4 \<le> length m"
    and c: "ciStartsWith (drop i m) (str ''.pdf'')" by simp_all
  have "cleanMatch m = take (i + 4) m" using assms(1) by (simp add: cleanMatch_def)
  moreover have "drop i (take (i + 4) m) = take 4 (drop i m)"
    by (simp add: drop_take)
  moreover from c have "ciStartsWith (take 4 (drop i m)) (str ''.pdf'')"
    by (rule ciStartsWith_take) (simp add: str_def)
  ultimately show ?thesis using l by simp
qed

text \<open>
  C1. The cleaned URL does start with \<^verbatim>\<open>http://\<close> or \<^verbatim>\<open>https://\<close>
  (\<open>cleaned_starts_with_scheme\<close>), and the cut after \<^verbatim>\<open>.pdf\<close> is made where the match
  contains one (\<open>cut_ends_with_pdf\<close>); but only \<^verbatim>\<open>.pdf\<close> is searched. After
  \<^verbatim>\<open>.txt\<close> (and \<^verbatim>\<open>.csv\<close>) the rest of the line stays: for the Base64 encoding of
  \<^verbatim>\<open>https://example.com/files/readme.txt%\<close> the cleaned URL does not end at its
  extension.
\<close>

theorem decodeAndCleanUrl_keeps_text_after_txt:
  "decodeAndCleanUrl (JStr (str ''aHR0cHM6Ly9leGFtcGxlLmNvbS9maWxlcy9yZWFkbWUudHh0JQ==''))
     = Inr \<lparr>raw = Some (str ''https://example.com/files/readme.txt%''),
            cleaned = Some (str ''https://example.com/files/readme.txt%'')\<rparr>
   \<and> \<not> endsWith (str ''https://example.com/files/readme.txt%'') (str ''.txt'')"
  by code_simp

section \<open>The last resort of customBase64Decode\<close>

text \<open>
  C5. On \<^verbatim>\<open>a!b\<close> every attempt of \<open>customBase64Decode\<close> fails: \<^verbatim>\<open>atob\<close> and the
  URL-safe attempt on the input, and both again on the retry \<^verbatim>\<open>a!\<close>. No exception is
  raised, but the result is \<^verbatim>\<open>a!\<close>, the input of the recursive call, and not the
  original input \<^verbatim>\<open>a!b\<close> that the comment of the last line promises.
\<close>

theorem customBase64Decode_returns_truncated_input:
  "atob (pad4 (stripTrailingNonB64 (str ''a!b''))) = Inl atobError
   \<and> urlSafeDecode (pad4 (stripTrailingNonB64 (str ''a!b''))) = Inl atobError
   \<and> atob (pad4 (stripTrailingNonB64 (str ''a!''))) = Inl atobError
   \<and> urlSafeDecode (pad4 (stripTrailingNonB64 (str ''a!''))) = Inl atobError
   \<and> customBase64Decode (str ''a!b'') = Inr (str ''a!'')
   \<and> str ''a!'' \<noteq> str ''a!b''"
  by code_simp

end
